theory Spec2Isabelle
  imports Main "HOL-Library.AList" "HOL-Library.Sublist"
begin

section \<open>Data model\<close>

subsection \<open>Trace maps\<close>

text \<open>
  Marker payloads are opaque JavaScript values; the tracer only tests them for
  truthiness (\<^verbatim>\<open>if (traceMap[READ])\<close>).  A missing marker reads as \<open>JUndefined\<close>.
  Numbers are restricted to integers (no NaN); objects are references and always truthy.
\<close>

datatype jsval = JUndefined | JNull | JBool bool | JNum int | JStr string | JObj nat

fun truthy :: "jsval \<Rightarrow> bool" where
  "truthy JUndefined = False"
| "truthy JNull = False"
| "truthy (JBool b) = b"
| "truthy (JNum i) = (i \<noteq> 0)"
| "truthy (JStr s) = (s \<noteq> [])"
| "truthy (JObj r) = True"

text \<open>The three reporting symbols \<^verbatim>\<open>READ\<close>, \<^verbatim>\<open>CALL\<close>, \<^verbatim>\<open>CONSTRUCT\<close>; they are
  the values of a report's \<^verbatim>\<open>type\<close>.\<close>

datatype symbol = READ | CALL | CONSTRUCT

text \<open>
  A trace map is an object: its own string-keyed properties (an association list in
  property order, the first binding of a name being the property), the payloads stored
  under the three reporting symbols, and whether it owns the \<^verbatim>\<open>ESM\<close> symbol.
\<close>

datatype tracemap =
  TraceMap (children: "(string \<times> tracemap) list")
           (onRead: jsval) (onCall: jsval) (onConstruct: jsval) (hasESM: bool)

text \<open>\<^verbatim>\<open>traceMap[READ]\<close>, \<^verbatim>\<open>traceMap[CALL]\<close>, \<^verbatim>\<open>traceMap[CONSTRUCT]\<close>.\<close>

fun sym :: "tracemap \<Rightarrow> symbol \<Rightarrow> jsval" where
  "sym t READ = onRead t"
| "sym t CALL = onCall t"
| "sym t CONSTRUCT = onConstruct t"

text \<open>\<^verbatim>\<open>has(traceMap, key)\<close> followed by \<^verbatim>\<open>traceMap[key]\<close>: \<open>None\<close> when the key is not an
  own property.\<close>

definition own :: "tracemap \<Rightarrow> string \<Rightarrow> tracemap option" where
  "own traceMap key = map_of (children traceMap) key"

text \<open>\<^verbatim>\<open>Object.keys(traceMap)\<close> paired with \<^verbatim>\<open>traceMap[key]\<close>: every own string key once.\<close>

definition Object_entries :: "tracemap \<Rightarrow> (string \<times> tracemap) list" where
  "Object_entries traceMap = AList.clearjunk (children traceMap)"

text \<open>\<^verbatim>\<open>Object.assign(target, source)\<close>: every own enumerable property of the source, string
  keyed or symbol keyed, is assigned on the target; an existing property keeps its place.\<close>

definition Object_assign :: "tracemap \<Rightarrow> tracemap \<Rightarrow> tracemap" where
  "Object_assign target source =
     TraceMap (fold (\<lambda>(k, v). AList.update k v) (Object_entries source) (children target))
              (if onRead source \<noteq> JUndefined then onRead source else onRead target)
              (if onCall source \<noteq> JUndefined then onCall source else onCall target)
              (if onConstruct source \<noteq> JUndefined then onConstruct source else onConstruct target)
              (hasESM source \<or> hasESM target)"

text \<open>The object literal \<^verbatim>\<open>{ default: nextTraceMap }\<close>.\<close>

definition default_only :: "tracemap \<Rightarrow> tracemap" where
  "default_only nextTraceMap = TraceMap [(''default'', nextTraceMap)] JUndefined JUndefined JUndefined False"

subsection \<open>Syntax tree and scope graph\<close>

type_synonym node_id = nat
type_synonym var_id = nat

text \<open>
  A node of the syntax tree, with the fields the tracer reads.  Links to other nodes are
  node identities; a link the node does not have is \<open>None\<close> (\<^verbatim>\<open>undefined\<close> or \<^verbatim>\<open>null\<close>).
  \<open>source\<close> is \<^verbatim>\<open>node.source.value\<close> (\<open>None\<close> when \<^verbatim>\<open>node.source == null\<close>); \<open>decl_id\<close> is the
  \<^verbatim>\<open>id\<close> of a declarator and \<open>pvalue\<close> the \<^verbatim>\<open>value\<close> of a property.
\<close>

record node =
  ntype :: string
  parent :: "node_id option"
  object :: "node_id option"
  callee :: "node_id option"
  arguments :: "node_id list"
  left :: "node_id option"
  right :: "node_id option"
  decl_id :: "node_id option"
  init :: "node_id option"
  name :: string
  properties :: "node_id list"
  pvalue :: "node_id option"
  source :: "string option"
  specifiers :: "node_id list"
  imported :: "node_id option"
  local :: "node_id option"
  body :: "node_id list"

record reference =
  isRead :: bool
  ident :: node_id

record variable =
  references :: "reference list"
  defs :: nat

text \<open>A scope: the name table \<^verbatim>\<open>set\<close>, the enclosing scope \<^verbatim>\<open>upper\<close> (\<^verbatim>\<open>null\<close> at the
  global scope) and the node \<^verbatim>\<open>block\<close> it governs.  Variables are object identities.\<close>

datatype scope = Scope (scope_set: "string \<Rightarrow> var_id option") (upper: "scope option") (block: node_id)

text \<open>
  The surroundings of a tracer: the node and variable objects, and the three helpers the
  module imports from its sibling files, taken as parameters:
  \<^verbatim>\<open>getInnermostScope(initialScope, node)\<close>, \<^verbatim>\<open>getPropertyName(node)\<close> (\<open>None\<close> for \<^verbatim>\<open>null\<close>)
  and \<^verbatim>\<open>getStringIfConstant(node)\<close> (whose argument may be \<^verbatim>\<open>undefined\<close>).
\<close>

record env =
  nodes :: "node_id \<Rightarrow> node"
  variables :: "var_id \<Rightarrow> variable"
  getInnermostScope :: "scope \<Rightarrow> node_id \<Rightarrow> scope"
  getPropertyName :: "node_id \<Rightarrow> string option"
  getStringIfConstant :: "node_id option \<Rightarrow> string option"

text \<open>The fields of a \<^verbatim>\<open>ReferenceTracer\<close> set by the constructor and never changed; the
  field \<^verbatim>\<open>variableStack\<close> is mutable and lives in the generator state below.\<close>

record tracer =
  globalScope :: scope
  mode :: string
  globalObjectNames :: "string list"

record report =
  node :: node_id
  path :: "string list"
  rtype :: symbol
  entry :: jsval

subsection \<open>Generators\<close>

text \<open>
  Every operation of the tracer is a generator.  A generator is modelled by what a
  consumer observes of one run: the reports it yields, in order, how it completes, and the
  state it leaves.  The state is the tracer's \<^verbatim>\<open>variableStack\<close> (which may hold \<^verbatim>\<open>null\<close>)
  and the consumer: \<open>closesAfter = None\<close> is a consumer that drains the generator,
  \<open>closesAfter = Some k\<close> one that closes it (\<^verbatim>\<open>return()\<close>, as \<^verbatim>\<open>break\<close> in a
  \<^verbatim>\<open>for\<close>-\<^verbatim>\<open>of\<close> does) right after receiving \<open>k + 1\<close> further reports.
  Closing resumes the generator with a return completion at the pending \<^verbatim>\<open>yield\<close>, which
  unwinds through the \<^verbatim>\<open>finally\<close> blocks like a thrown error does.
\<close>

datatype error = TypeError

datatype completion = Normal | Return | Throw error | NoFuel

record gstate =
  variableStack :: "var_id option list"
  closesAfter :: "nat option"

type_synonym result = "report list \<times> completion \<times> gstate"
type_synonym gen = "gstate \<Rightarrow> result"

definition skip :: gen where
  "skip s = ([], Normal, s)"

definition abrupt :: "completion \<Rightarrow> gen" where
  "abrupt c s = ([], c, s)"

definition yield :: "report \<Rightarrow> gen" where
  "yield r s =
     (case closesAfter s of
        None \<Rightarrow> ([r], Normal, s)
      | Some 0 \<Rightarrow> ([r], Return, s)
      | Some (Suc k) \<Rightarrow> ([r], Normal, s\<lparr>closesAfter := Some k\<rparr>))"

text \<open>Sequential composition: the second part runs only after the first completed normally.\<close>

definition seq :: "gen \<Rightarrow> gen \<Rightarrow> gen" where
  "seq g h s =
     (case g s of
        (rs, Normal, s1) \<Rightarrow> (case h s1 of (rs', c, s2) \<Rightarrow> (rs @ rs', c, s2))
      | (rs, c, s1) \<Rightarrow> (rs, c, s1))"

text \<open>A \<^verbatim>\<open>for\<close>-\<^verbatim>\<open>of\<close> loop over an array; \<^verbatim>\<open>continue\<close> is a body that is \<open>skip\<close>.\<close>

fun for_of :: "'a list \<Rightarrow> ('a \<Rightarrow> gen) \<Rightarrow> gen" where
  "for_of [] b = skip"
| "for_of (x # xs) b = seq (b x) (for_of xs b)"

text \<open>\<^verbatim>\<open>try { ... } finally { ... }\<close>: the finaliser runs however the block completes.\<close>

definition try_finally :: "gen \<Rightarrow> (gstate \<Rightarrow> gstate) \<Rightarrow> gen" where
  "try_finally g fin s = (case g s of (rs, c, s1) \<Rightarrow> (rs, c, fin s1))"

definition push :: "var_id option \<Rightarrow> gstate \<Rightarrow> gstate" where
  "push v s = s\<lparr>variableStack := variableStack s @ [v]\<rparr>"

definition pop :: "gstate \<Rightarrow> gstate" where
  "pop s = s\<lparr>variableStack := butlast (variableStack s)\<rparr>"

section \<open>The reference tracer\<close>

subsection \<open>Node kinds\<close>

text \<open>\<^verbatim>\<open>/^(?:.+?Statement|.+?Declaration|...)$/\<close>: the alternative \<^verbatim>\<open>.+?Suffix\<close> matches a
  string that ends with the suffix after at least one character, none a line break.\<close>

definition some_then :: "string \<Rightarrow> string \<Rightarrow> bool" where
  "some_then suf s =
     (length suf < length s \<and> drop (length s - length suf) s = suf \<and>
      list_all (\<lambda>c. c \<noteq> CHR 0x0A \<and> c \<noteq> CHR 0x0D) (take (length s - length suf) s))"

definition SENTINEL_TYPE :: "string \<Rightarrow> bool" where
  "SENTINEL_TYPE t =
     (some_then ''Statement'' t \<or> some_then ''Declaration'' t \<or>
      t \<in> set [''ArrayExpression'', ''ArrowFunctionExpression'', ''AssignmentExpression'',
        ''CallExpression'', ''ClassExpression'', ''FunctionExpression'', ''MemberExpression'',
        ''NewExpression'', ''ObjectExpression''] \<or>
      t = ''AssignmentPattern'' \<or> t = ''Program'' \<or> t = ''VariableDeclarator'')"

definition IMPORT_TYPE :: "string \<Rightarrow> bool" where
  "IMPORT_TYPE t =
     (t \<in> set [''ImportDeclaration'', ''ExportAllDeclaration'', ''ExportDefaultDeclaration'',
        ''ExportNamedDeclaration''])"

definition exceptDefault :: "string \<Rightarrow> nat \<Rightarrow> bool" where
  "exceptDefault name' index = (\<not> (index = 1 \<and> name' = ''default''))"

text \<open>\<^verbatim>\<open>Array.prototype.filter\<close>, whose predicate also receives the index of the element:
  the loop from index \<open>i\<close> on, and the method.\<close>

fun filter_from :: "('a \<Rightarrow> nat \<Rightarrow> bool) \<Rightarrow> nat \<Rightarrow> 'a list \<Rightarrow> 'a list" where
  "filter_from f i [] = []"
| "filter_from f i (x # xs) =
     (if f x i then x # filter_from f (Suc i) xs else filter_from f (Suc i) xs)"

definition Array_filter :: "('a \<Rightarrow> nat \<Rightarrow> bool) \<Rightarrow> 'a list \<Rightarrow> 'a list" where
  "Array_filter f xs = filter_from f 0 xs"

subsection \<open>Variable resolver\<close>

text \<open>The loop of \<^verbatim>\<open>_findVariable\<close> over the chain of \<^verbatim>\<open>upper\<close> links.\<close>

fun findVariable_loop :: "scope option \<Rightarrow> string \<Rightarrow> var_id option" where
  "findVariable_loop None name' = None"
| "findVariable_loop (Some (Scope set' upper' block')) name' =
     (case set' name' of
        Some variable \<Rightarrow> Some variable
      | None \<Rightarrow> findVariable_loop upper' name')"

definition findVariable :: "env \<Rightarrow> tracer \<Rightarrow> node_id \<Rightarrow> var_id option" where
  "findVariable E this nd =
     findVariable_loop (Some (getInnermostScope E (globalScope this) nd)) (name (nodes E nd))"

subsection \<open>Reference propagator and pattern unpacker\<close>

text \<open>
  The loop at the head of \<^verbatim>\<open>_iteratePropertyReferences\<close>: climb while the parent is not of
  a sentinel kind.  It returns the node reached together with its parent, fails with a
  \<^verbatim>\<open>TypeError\<close> when a node has no parent (\<^verbatim>\<open>node.parent.type\<close> of \<^verbatim>\<open>null\<close>), and runs out of
  fuel on a parent chain longer than the fuel.
\<close>

fun climb :: "env \<Rightarrow> nat \<Rightarrow> node_id \<Rightarrow> completion + node_id \<times> node_id" where
  "climb E 0 nd = Inl NoFuel"
| "climb E (Suc n) nd =
     (case parent (nodes E nd) of
        None \<Rightarrow> Inl (Throw TypeError)
      | Some p \<Rightarrow> if SENTINEL_TYPE (ntype (nodes E p)) then Inr (nd, p) else climb E n p)"

text \<open>
  The three mutually recursive generators.  The first argument after the surroundings is
  the fuel: every call of one generator by another spends one unit, and a run that needs
  more ends with \<open>NoFuel\<close>.  \<^verbatim>\<open>_iterateVariableReferences\<close> checks the stack before anything
  else.  The variable may be \<^verbatim>\<open>null\<close> (\<open>None\<close>): \<^verbatim>\<open>_iterateImportReferences\<close> passes the result
  of \<^verbatim>\<open>_findVariable\<close> unchecked, and \<^verbatim>\<open>variable.references\<close> then throws inside the
  \<^verbatim>\<open>try\<close> block.
\<close>

function (sequential) iterateVariableReferences ::
      "env \<Rightarrow> tracer \<Rightarrow> nat \<Rightarrow> var_id option \<Rightarrow> string list \<Rightarrow> tracemap \<Rightarrow> bool \<Rightarrow> gen"
  and iteratePropertyReferences ::
      "env \<Rightarrow> tracer \<Rightarrow> nat \<Rightarrow> node_id \<Rightarrow> string list \<Rightarrow> tracemap \<Rightarrow> gen"
  and iterateLhsReferences ::
      "env \<Rightarrow> tracer \<Rightarrow> nat \<Rightarrow> node_id option \<Rightarrow> string list \<Rightarrow> tracemap \<Rightarrow> gen"
where
  "iterateVariableReferences E this n variable path' traceMap shouldReport =
     (\<lambda>s. if variable \<in> set (variableStack s) then ([], Normal, s)
          else (case n of
             0 \<Rightarrow> ([], NoFuel, s)
           | Suc k \<Rightarrow>
               try_finally
                 (case variable of
                    None \<Rightarrow> abrupt (Throw TypeError)
                  | Some v \<Rightarrow>
                      for_of (references (variables E v)) (\<lambda>reference.
                        if \<not> isRead reference then skip
                        else seq
                          (if shouldReport \<and> truthy (onRead traceMap)
                           then yield \<lparr>node = ident reference, path = path', rtype = READ,
                                       entry = onRead traceMap\<rparr>
                           else skip)
                          (iteratePropertyReferences E this k (ident reference) path' traceMap)))
                 pop (push variable s)))"
| "iteratePropertyReferences E this 0 rootNode path' traceMap = abrupt NoFuel"
| "iteratePropertyReferences E this (Suc n) rootNode path' traceMap =
     (case climb E (Suc n) rootNode of
        Inl c \<Rightarrow> abrupt c
      | Inr (nd, parent') \<Rightarrow>
          let p = nodes E parent' in
          if ntype p = ''MemberExpression'' then
            (if object p = Some nd then
               (case getPropertyName E parent' of
                  None \<Rightarrow> skip
                | Some key \<Rightarrow>
                    (case own traceMap key of
                       None \<Rightarrow> skip
                     | Some nextTraceMap \<Rightarrow>
                         seq
                           (if truthy (onRead nextTraceMap)
                            then yield \<lparr>node = parent', path = path' @ [key], rtype = READ,
                                        entry = onRead nextTraceMap\<rparr>
                            else skip)
                           (iteratePropertyReferences E this n parent' (path' @ [key]) nextTraceMap)))
             else skip)
          else if ntype p = ''CallExpression'' then
            (if callee p = Some nd \<and> truthy (onCall traceMap)
             then yield \<lparr>node = parent', path = path', rtype = CALL, entry = onCall traceMap\<rparr>
             else skip)
          else if ntype p = ''NewExpression'' then
            (if callee p = Some nd \<and> truthy (onConstruct traceMap)
             then yield \<lparr>node = parent', path = path', rtype = CONSTRUCT,
                         entry = onConstruct traceMap\<rparr>
             else skip)
          else if ntype p = ''AssignmentExpression'' then
            (if right p = Some nd then
               seq (iterateLhsReferences E this n (left p) path' traceMap)
                   (iteratePropertyReferences E this n parent' path' traceMap)
             else skip)
          else if ntype p = ''AssignmentPattern'' then
            (if right p = Some nd then iterateLhsReferences E this n (left p) path' traceMap
             else skip)
          else if ntype p = ''VariableDeclarator'' then
            (if init p = Some nd then iterateLhsReferences E this n (decl_id p) path' traceMap
             else skip)
          else skip)"
| "iterateLhsReferences E this 0 patternNode path' traceMap = abrupt NoFuel"
| "iterateLhsReferences E this (Suc n) patternNode path' traceMap =
     (case patternNode of
        None \<Rightarrow> abrupt (Throw TypeError)
      | Some pn \<Rightarrow>
          let pat = nodes E pn in
          if ntype pat = ''Identifier'' then
            (case findVariable E this pn of
               None \<Rightarrow> skip
             | Some variable \<Rightarrow>
                 iterateVariableReferences E this n (Some variable) path' traceMap False)
          else if ntype pat = ''ObjectPattern'' then
            for_of (properties pat) (\<lambda>property.
              case getPropertyName E property of
                None \<Rightarrow> skip
              | Some key \<Rightarrow>
                  (case own traceMap key of
                     None \<Rightarrow> skip
                   | Some nextTraceMap \<Rightarrow>
                       seq
                         (if truthy (onRead nextTraceMap)
                          then yield \<lparr>node = property, path = path' @ [key], rtype = READ,
                                      entry = onRead nextTraceMap\<rparr>
                          else skip)
                         (iterateLhsReferences E this n (pvalue (nodes E property))
                            (path' @ [key]) nextTraceMap)))
          else if ntype pat = ''AssignmentPattern'' then
            iterateLhsReferences E this n (left pat) path' traceMap
          else skip)"

  by pat_completeness auto
termination
  by (relation "measure (\<lambda>x. case x of
          Inl (E, this, n, r) \<Rightarrow> n
        | Inr (Inl (E, this, n, r)) \<Rightarrow> n
        | Inr (Inr (E, this, n, r)) \<Rightarrow> n)") auto

subsection \<open>Module specifiers\<close>

text \<open>
  \<^verbatim>\<open>_iterateImportReferences\<close>.  \<^verbatim>\<open>specifierNode.imported.name\<close> and
  \<^verbatim>\<open>specifierNode.local.name\<close> throw when the link is missing.  The result of
  \<^verbatim>\<open>_findVariable\<close> goes to \<^verbatim>\<open>_iterateVariableReferences\<close> as it is, \<^verbatim>\<open>null\<close> included.
\<close>

definition iterateImportReferences ::
    "env \<Rightarrow> tracer \<Rightarrow> nat \<Rightarrow> node_id \<Rightarrow> string list \<Rightarrow> tracemap \<Rightarrow> gen" where
  "iterateImportReferences E this n specifierNode path' traceMap =
     (let sp = nodes E specifierNode; type = ntype sp in
      if type = ''ImportSpecifier'' \<or> type = ''ImportDefaultSpecifier'' then
        (case (if type = ''ImportDefaultSpecifier'' then Some ''default''
               else map_option (\<lambda>i. name (nodes E i)) (imported sp)) of
           None \<Rightarrow> abrupt (Throw TypeError)
         | Some key \<Rightarrow>
             (case own traceMap key of
                None \<Rightarrow> skip
              | Some nextTraceMap \<Rightarrow>
                  seq
                    (if truthy (onRead nextTraceMap)
                     then yield \<lparr>node = specifierNode, path = path' @ [key], rtype = READ,
                                 entry = onRead nextTraceMap\<rparr>
                     else skip)
                    (case local sp of
                       None \<Rightarrow> abrupt (Throw TypeError)
                     | Some l \<Rightarrow>
                         iterateVariableReferences E this n (findVariable E this l)
                           (path' @ [key]) nextTraceMap False)))
      else if type = ''ImportNamespaceSpecifier'' then
        (case local sp of
           None \<Rightarrow> abrupt (Throw TypeError)
         | Some l \<Rightarrow>
             iterateVariableReferences E this n (findVariable E this l) path' traceMap False)
      else if type = ''ExportSpecifier'' then
        (case local sp of
           None \<Rightarrow> abrupt (Throw TypeError)
         | Some l \<Rightarrow>
             (case own traceMap (name (nodes E l)) of
                None \<Rightarrow> skip
              | Some nextTraceMap \<Rightarrow>
                  if truthy (onRead nextTraceMap)
                  then yield \<lparr>node = specifierNode, path = path' @ [name (nodes E l)],
                              rtype = READ, entry = onRead nextTraceMap\<rparr>
                  else skip))
      else skip)"

subsection \<open>Entry strategies\<close>

definition iterateGlobalReferences :: "env \<Rightarrow> tracer \<Rightarrow> nat \<Rightarrow> tracemap \<Rightarrow> gen" where
  "iterateGlobalReferences E this n traceMap =
     seq
       (for_of (Object_entries traceMap) (\<lambda>(key, nextTraceMap).
          case scope_set (globalScope this) key of
            None \<Rightarrow> skip
          | Some variable \<Rightarrow>
              if defs (variables E variable) \<noteq> 0 then skip
              else iterateVariableReferences E this n (Some variable) [key] nextTraceMap True))
       (for_of (globalObjectNames this) (\<lambda>key.
          case scope_set (globalScope this) key of
            None \<Rightarrow> skip
          | Some variable \<Rightarrow>
              if defs (variables E variable) \<noteq> 0 then skip
              else iterateVariableReferences E this n (Some variable) [] traceMap False))"

text \<open>\<^verbatim>\<open>callNode.arguments[0]\<close>, \<^verbatim>\<open>undefined\<close> for a call without arguments.\<close>

definition first_argument :: "node \<Rightarrow> node_id option" where
  "first_argument callNode = (case arguments callNode of [] \<Rightarrow> None | a # as \<Rightarrow> Some a)"

text \<open>The test of the loop in \<^verbatim>\<open>iterateCjsReferences\<close> reads \<^verbatim>\<open>callNode.type\<close> only for a read
  reference; it throws when the identifier has no parent.\<close>

definition iterateCjsReferences :: "env \<Rightarrow> tracer \<Rightarrow> nat \<Rightarrow> tracemap \<Rightarrow> gen" where
  "iterateCjsReferences E this n traceMap =
     (case scope_set (globalScope this) ''require'' of
        None \<Rightarrow> skip
      | Some variable \<Rightarrow>
          if defs (variables E variable) \<noteq> 0 then skip
          else
            for_of (references (variables E variable)) (\<lambda>reference.
              let reqNode = ident reference in
              if \<not> isRead reference then skip
              else
                (case parent (nodes E reqNode) of
                   None \<Rightarrow> abrupt (Throw TypeError)
                 | Some callNode \<Rightarrow>
                     if ntype (nodes E callNode) \<noteq> ''CallExpression'' \<or>
                        callee (nodes E callNode) \<noteq> Some reqNode
                     then skip
                     else
                       (case getStringIfConstant E (first_argument (nodes E callNode)) of
                          None \<Rightarrow> skip
                        | Some key \<Rightarrow>
                            (case own traceMap key of
                               None \<Rightarrow> skip
                             | Some nextTraceMap \<Rightarrow>
                                 seq
                                   (if truthy (onRead nextTraceMap)
                                    then yield \<lparr>node = callNode, path = [key], rtype = READ,
                                                entry = onRead nextTraceMap\<rparr>
                                    else skip)
                                   (iteratePropertyReferences E this n callNode [key]
                                      nextTraceMap))))))"

text \<open>
  The body of the inner loop of \<^verbatim>\<open>iterateEsmReferences\<close> for a module without the \<^verbatim>\<open>ESM\<close>
  symbol: the path is filtered and the report is yielded (\<open>Some\<close>) or dropped (\<open>None\<close>).
\<close>

definition forward :: "report \<Rightarrow> report option" where
  "forward report' =
     (let filtered = Array_filter exceptDefault (path report') in
      if 2 \<le> length filtered \<or> rtype report' \<noteq> READ
      then Some (report'\<lparr>path := filtered\<rparr>) else None)"

text \<open>
  A \<^verbatim>\<open>for\<close>-\<^verbatim>\<open>of\<close> loop over a generator whose body yields at most one report per round.
  The loop pulls the inner generator; when the consumer closes the loop at a yield, the
  loop closes the inner generator, which by then has delivered \<open>pulls\<close> reports.
\<close>

fun pulls :: "(report \<Rightarrow> report option) \<Rightarrow> report list \<Rightarrow> nat \<Rightarrow> nat" where
  "pulls b rs 0 = 0"
| "pulls b [] (Suc m) = 0"
| "pulls b (r # rs) (Suc m) = Suc (pulls b rs (case b r of None \<Rightarrow> Suc m | Some r' \<Rightarrow> m))"

definition for_of_gen :: "gen \<Rightarrow> (report \<Rightarrow> report option) \<Rightarrow> gen" where
  "for_of_gen it b s =
     (case it (s\<lparr>closesAfter := None\<rparr>) of (rs, c, s1) \<Rightarrow>
        (case closesAfter s of
           None \<Rightarrow> (List.map_filter b rs, c, s1)
         | Some k \<Rightarrow>
             if length (List.map_filter b rs) \<le> k
             then (List.map_filter b rs, c,
                   s1\<lparr>closesAfter := Some (k - length (List.map_filter b rs))\<rparr>)
             else
               (case it (s\<lparr>closesAfter := Some (pulls b rs (Suc k) - 1)\<rparr>) of (rs', c', s2) \<Rightarrow>
                  (take (Suc k) (List.map_filter b rs), Return, s2))))"

text \<open>The body of the loop of \<^verbatim>\<open>iterateEsmReferences\<close> over \<^verbatim>\<open>node.specifiers\<close>, for the
  module \<open>moduleId\<close> whose trace map is \<open>nextTraceMap\<close>.\<close>

definition specifier_references ::
    "env \<Rightarrow> tracer \<Rightarrow> nat \<Rightarrow> string \<Rightarrow> tracemap \<Rightarrow> node_id \<Rightarrow> gen" where
  "specifier_references E this n moduleId nextTraceMap specifier =
     (let esm = hasESM nextTraceMap;
          it = iterateImportReferences E this n specifier [moduleId]
                 (if esm then nextTraceMap
                  else if mode this = ''legacy''
                  then Object_assign (default_only nextTraceMap) nextTraceMap
                  else default_only nextTraceMap)
      in if esm then it else for_of_gen it forward)"

definition iterateEsmReferences :: "env \<Rightarrow> tracer \<Rightarrow> nat \<Rightarrow> tracemap \<Rightarrow> gen" where
  "iterateEsmReferences E this n traceMap =
     (let programNode = block (globalScope this) in
      for_of (body (nodes E programNode)) (\<lambda>nd.
        if \<not> IMPORT_TYPE (ntype (nodes E nd)) then skip
        else
          (case source (nodes E nd) of
             None \<Rightarrow> skip
           | Some moduleId \<Rightarrow>
               (case own traceMap moduleId of
                  None \<Rightarrow> skip
                | Some nextTraceMap \<Rightarrow>
                    seq
                      (if truthy (onRead nextTraceMap)
                       then yield \<lparr>node = nd, path = [moduleId], rtype = READ,
                                   entry = onRead nextTraceMap\<rparr>
                       else skip)
                      (if ntype (nodes E nd) = ''ExportAllDeclaration'' then
                         for_of (Object_entries nextTraceMap) (\<lambda>(key, exportTraceMap).
                           if truthy (onRead exportTraceMap)
                           then yield \<lparr>node = nd, path = [moduleId] @ [key], rtype = READ,
                                       entry = onRead exportTraceMap\<rparr>
                           else skip)
                       else
                         for_of (specifiers (nodes E nd))
                           (specifier_references E this n moduleId nextTraceMap))))))"

section \<open>Properties of generators\<close>

text \<open>\<open>emits P g\<close>: every report that \<open>g\<close> yields, from whatever state it is started in and
  however it completes, satisfies \<open>P\<close>.  \<open>keeps_stack g\<close>: \<open>g\<close> leaves the stack of variables
  as it found it, however it completes.\<close>

definition emits :: "(report \<Rightarrow> bool) \<Rightarrow> gen \<Rightarrow> bool" where
  "emits P g = (\<forall>s. list_all P (fst (g s)))"

definition keeps_stack :: "gen \<Rightarrow> bool" where
  "keeps_stack g = (\<forall>s. variableStack (snd (snd (g s))) = variableStack s)"

text \<open>\<open>stable g g'\<close>: wherever \<open>g\<close> does not run out of fuel, \<open>g'\<close> does what \<open>g\<close> does.\<close>

definition stable :: "gen \<Rightarrow> gen \<Rightarrow> bool" where
  "stable g g' = (\<forall>s. fst (snd (g s)) \<noteq> NoFuel \<longrightarrow> g' s = g s)"




text \<open>Following a path of property names down a trace map.\<close>

fun descend :: "tracemap \<Rightarrow> string list \<Rightarrow> tracemap option" where
  "descend t [] = Some t"
| "descend t (k # ks) = (case own t k of None \<Rightarrow> None | Some t' \<Rightarrow> descend t' ks)"

text \<open>\<open>marked t q r\<close>: the path \<open>q\<close> leads from \<open>t\<close> to a node, and the entry of the report
  \<open>r\<close> is the payload that node stores under the symbol that is the type of \<open>r\<close> (a payload
  that is reported is truthy).\<close>

definition marked :: "tracemap \<Rightarrow> string list \<Rightarrow> report \<Rightarrow> bool" where
  "marked t q r =
     (case descend t q of
        None \<Rightarrow> False
      | Some t' \<Rightarrow> truthy (entry r) \<and> entry r = sym t' (rtype r))"

text \<open>\<open>extends p t r\<close>: the path of \<open>r\<close> extends \<open>p\<close>, and what it adds leads from \<open>t\<close> to the
  node whose payload \<open>r\<close> reports.\<close>

definition extends :: "string list \<Rightarrow> tracemap \<Rightarrow> report \<Rightarrow> bool" where
  "extends p t r = (prefix p (path r) \<and> marked t (drop (length p) (path r)) r)"

text \<open>\<open>default_free this traceMap\<close>: in \<^verbatim>\<open>"legacy"\<close> mode, no module map without the \<^verbatim>\<open>ESM\<close>
  symbol has a property named \<^verbatim>\<open>default\<close> of its own.\<close>

definition default_free :: "tracer \<Rightarrow> tracemap \<Rightarrow> bool" where
  "default_free this traceMap =
     (mode this \<noteq> ''legacy'' \<or>
      list_all (\<lambda>(moduleId, m). hasESM m \<or> own m ''default'' = None) (Object_entries traceMap))"

subsection \<open>The words of the claims\<close>

text \<open>The variable a name has in the global scope, when it has one with no declaring
  definition.\<close>

definition undeclared :: "env \<Rightarrow> tracer \<Rightarrow> string \<Rightarrow> var_id option" where
  "undeclared E this key =
     (case scope_set (globalScope this) key of
        None \<Rightarrow> None
      | Some variable \<Rightarrow> if defs (variables E variable) = 0 then Some variable else None)"

text \<open>A reference that is a read and is exactly the callee of a call whose first argument
  resolves to a constant string that is an own key of the trace map: the call, the key and
  the child map.\<close>

definition require_call ::
    "env \<Rightarrow> tracemap \<Rightarrow> reference \<Rightarrow> (node_id \<times> string \<times> tracemap) option" where
  "require_call E traceMap reference =
     (if isRead reference then
        (case parent (nodes E (ident reference)) of
           None \<Rightarrow> None
         | Some callNode \<Rightarrow>
             if ntype (nodes E callNode) = ''CallExpression'' \<and>
                callee (nodes E callNode) = Some (ident reference)
             then
               (case getStringIfConstant E (first_argument (nodes E callNode)) of
                  None \<Rightarrow> None
                | Some key \<Rightarrow>
                    (case own traceMap key of
                       None \<Rightarrow> None
                     | Some nextTraceMap \<Rightarrow> Some (callNode, key, nextTraceMap)))
             else None)
      else None)"

text \<open>A destructured property whose resolved key is present in the trace map: the key and
  the child map.\<close>

definition traced_property :: "env \<Rightarrow> tracemap \<Rightarrow> node_id \<Rightarrow> (string \<times> tracemap) option" where
  "traced_property E traceMap property =
     (case getPropertyName E property of
        None \<Rightarrow> None
      | Some key \<Rightarrow>
          (case own traceMap key of
             None \<Rightarrow> None
           | Some nextTraceMap \<Rightarrow> Some (key, nextTraceMap)))"

section \<open>Example programs\<close>

text \<open>Nodes are numbered in source order; a node table lists the fields that are set.\<close>

definition blank :: node where
  "blank = \<lparr>ntype = [], parent = None, object = None, callee = None, arguments = [],
     left = None, right = None, decl_id = None, init = None, name = [], properties = [],
     pvalue = None, source = None, specifiers = [], imported = None, local = None, body = []\<rparr>"

definition table :: "(nat \<times> 'a) list \<Rightarrow> 'a \<Rightarrow> nat \<Rightarrow> 'a" where
  "table xs d i = (case map_of xs i of Some x \<Rightarrow> x | None \<Rightarrow> d)"

definition no_variable :: variable where
  "no_variable = \<lparr>references = [], defs = 0\<rparr>"

text \<open>A trace map with string keys only, and one with markers only.\<close>

definition obj :: "(string \<times> tracemap) list \<Rightarrow> tracemap" where
  "obj kvs = TraceMap kvs JUndefined JUndefined JUndefined False"

definition leaf :: "jsval \<Rightarrow> jsval \<Rightarrow> jsval \<Rightarrow> tracemap" where
  "leaf r c k = TraceMap [] r c k False"

text \<open>A tracer as the constructor builds it with the default names of the global object,
  and the state of a tracer that has not run, read by a consumer that drains it.\<close>

definition new_tracer :: "scope \<Rightarrow> string \<Rightarrow> tracer" where
  "new_tracer scope' mode' =
     \<lparr>globalScope = scope', mode = mode', globalObjectNames = [''global'', ''self'', ''window'']\<rparr>"

definition fresh :: gstate where
  "fresh = \<lparr>variableStack = [], closesAfter = None\<rparr>"

text \<open>\<^verbatim>\<open>const {y} = window.x; y()\<close>\<close>

definition destructure_env :: env where
  "destructure_env =
     \<lparr>nodes = table
        [(0, blank\<lparr>ntype := ''Program'', body := [1, 9]\<rparr>),
         (1, blank\<lparr>ntype := ''VariableDeclaration'', parent := Some 0\<rparr>),
         (2, blank\<lparr>ntype := ''VariableDeclarator'', parent := Some 1, decl_id := Some 3,
                   init := Some 6\<rparr>),
         (3, blank\<lparr>ntype := ''ObjectPattern'', parent := Some 2, properties := [4]\<rparr>),
         (4, blank\<lparr>ntype := ''Property'', parent := Some 3, pvalue := Some 5\<rparr>),
         (5, blank\<lparr>ntype := ''Identifier'', parent := Some 4, name := ''y''\<rparr>),
         (6, blank\<lparr>ntype := ''MemberExpression'', parent := Some 2, object := Some 7\<rparr>),
         (7, blank\<lparr>ntype := ''Identifier'', parent := Some 6, name := ''window''\<rparr>),
         (8, blank\<lparr>ntype := ''Identifier'', parent := Some 6, name := ''x''\<rparr>),
         (9, blank\<lparr>ntype := ''ExpressionStatement'', parent := Some 0\<rparr>),
         (10, blank\<lparr>ntype := ''CallExpression'', parent := Some 9, callee := Some 11\<rparr>),
         (11, blank\<lparr>ntype := ''Identifier'', parent := Some 10, name := ''y''\<rparr>)] blank,
      variables = table
        [(0, \<lparr>references = [\<lparr>isRead = True, ident = 7\<rparr>], defs = 0\<rparr>),
         (1, \<lparr>references = [\<lparr>isRead = False, ident = 5\<rparr>, \<lparr>isRead = True, ident = 11\<rparr>],
              defs = 1\<rparr>)] no_variable,
      getInnermostScope = (\<lambda>initialScope nd. initialScope),
      getPropertyName = table [(4, Some ''y''), (6, Some ''x'')] None,
      getStringIfConstant = (\<lambda>nd. None)\<rparr>"

definition destructure_scope :: scope where
  "destructure_scope = Scope (map_of [(''window'', 0), (''y'', 1)]) None 0"

text \<open>\<^verbatim>\<open>let x = x;\<close>\<close>

definition self_alias_env :: env where
  "self_alias_env =
     \<lparr>nodes = table
        [(0, blank\<lparr>ntype := ''Program'', body := [1]\<rparr>),
         (1, blank\<lparr>ntype := ''VariableDeclaration'', parent := Some 0\<rparr>),
         (2, blank\<lparr>ntype := ''VariableDeclarator'', parent := Some 1, decl_id := Some 3,
                   init := Some 4\<rparr>),
         (3, blank\<lparr>ntype := ''Identifier'', parent := Some 2, name := ''x''\<rparr>),
         (4, blank\<lparr>ntype := ''Identifier'', parent := Some 2, name := ''x''\<rparr>)] blank,
      variables = table
        [(0, \<lparr>references = [\<lparr>isRead = False, ident = 3\<rparr>, \<lparr>isRead = True, ident = 4\<rparr>],
              defs = 1\<rparr>)] no_variable,
      getInnermostScope = (\<lambda>initialScope nd. initialScope),
      getPropertyName = (\<lambda>nd. None),
      getStringIfConstant = (\<lambda>nd. None)\<rparr>"

definition self_alias_scope :: scope where
  "self_alias_scope = Scope (map_of [(''x'', 0)]) None 0"

text \<open>\<^verbatim>\<open>require("m").foo;\<close>\<close>

definition require_env :: env where
  "require_env =
     \<lparr>nodes = table
        [(0, blank\<lparr>ntype := ''Program'', body := [1]\<rparr>),
         (1, blank\<lparr>ntype := ''ExpressionStatement'', parent := Some 0\<rparr>),
         (2, blank\<lparr>ntype := ''MemberExpression'', parent := Some 1, object := Some 3\<rparr>),
         (3, blank\<lparr>ntype := ''CallExpression'', parent := Some 2, callee := Some 4,
                   arguments := [5]\<rparr>),
         (4, blank\<lparr>ntype := ''Identifier'', parent := Some 3, name := ''require''\<rparr>),
         (5, blank\<lparr>ntype := ''Literal'', parent := Some 3\<rparr>),
         (6, blank\<lparr>ntype := ''Identifier'', parent := Some 2, name := ''foo''\<rparr>)] blank,
      variables = table [(0, \<lparr>references = [\<lparr>isRead = True, ident = 4\<rparr>], defs = 0\<rparr>)] no_variable,
      getInnermostScope = (\<lambda>initialScope nd. initialScope),
      getPropertyName = table [(2, Some ''foo'')] None,
      getStringIfConstant = (\<lambda>nd. if nd = Some 5 then Some ''m'' else None)\<rparr>"

definition require_scope :: scope where
  "require_scope = Scope (map_of [(''require'', 0)]) None 0"

text \<open>\<^verbatim>\<open>import {foo} from "m"; foo;\<close> The binding lives in the module scope, whose upper scope
  is the global scope.\<close>

definition named_import_scope :: scope where
  "named_import_scope = Scope (\<lambda>name'. None) None 0"

definition named_import_module_scope :: scope where
  "named_import_module_scope = Scope (map_of [(''foo'', 0)]) (Some named_import_scope) 0"

definition named_import_env :: env where
  "named_import_env =
     \<lparr>nodes = table
        [(0, blank\<lparr>ntype := ''Program'', body := [1, 5]\<rparr>),
         (1, blank\<lparr>ntype := ''ImportDeclaration'', parent := Some 0, source := Some ''m'',
                   specifiers := [2]\<rparr>),
         (2, blank\<lparr>ntype := ''ImportSpecifier'', parent := Some 1, imported := Some 3,
                   local := Some 4\<rparr>),
         (3, blank\<lparr>ntype := ''Identifier'', parent := Some 2, name := ''foo''\<rparr>),
         (4, blank\<lparr>ntype := ''Identifier'', parent := Some 2, name := ''foo''\<rparr>),
         (5, blank\<lparr>ntype := ''ExpressionStatement'', parent := Some 0\<rparr>),
         (6, blank\<lparr>ntype := ''Identifier'', parent := Some 5, name := ''foo''\<rparr>)] blank,
      variables = table [(0, \<lparr>references = [\<lparr>isRead = True, ident = 6\<rparr>], defs = 1\<rparr>)] no_variable,
      getInnermostScope = (\<lambda>initialScope nd. named_import_module_scope),
      getPropertyName = (\<lambda>nd. None),
      getStringIfConstant = (\<lambda>nd. None)\<rparr>"


text \<open>\<^verbatim>\<open>import x from "m";\<close>\<close>

definition bare_import_scope :: scope where
  "bare_import_scope = Scope (\<lambda>name'. None) None 0"

definition bare_import_module_scope :: scope where
  "bare_import_module_scope = Scope (map_of [(''x'', 0)]) (Some bare_import_scope) 0"

definition bare_import_env :: env where
  "bare_import_env =
     \<lparr>nodes = table
        [(0, blank\<lparr>ntype := ''Program'', body := [1]\<rparr>),
         (1, blank\<lparr>ntype := ''ImportDeclaration'', parent := Some 0, source := Some ''m'',
                   specifiers := [2]\<rparr>),
         (2, blank\<lparr>ntype := ''ImportDefaultSpecifier'', parent := Some 1, local := Some 3\<rparr>),
         (3, blank\<lparr>ntype := ''Identifier'', parent := Some 2, name := ''x''\<rparr>)] blank,
      variables = table [(0, \<lparr>references = [], defs = 1\<rparr>)] no_variable,
      getInnermostScope = (\<lambda>initialScope nd. bare_import_module_scope),
      getPropertyName = (\<lambda>nd. None),
      getStringIfConstant = (\<lambda>nd. None)\<rparr>"

text \<open>\<^verbatim>\<open>import x from "m"; x.foo;\<close> and \<^verbatim>\<open>import x from "m"; x.default;\<close>: the name of the
  accessed property is the parameter.\<close>

definition default_import_env :: "string \<Rightarrow> env" where
  "default_import_env property =
     \<lparr>nodes = table
        [(0, blank\<lparr>ntype := ''Program'', body := [1, 4]\<rparr>),
         (1, blank\<lparr>ntype := ''ImportDeclaration'', parent := Some 0, source := Some ''m'',
                   specifiers := [2]\<rparr>),
         (2, blank\<lparr>ntype := ''ImportDefaultSpecifier'', parent := Some 1, local := Some 3\<rparr>),
         (3, blank\<lparr>ntype := ''Identifier'', parent := Some 2, name := ''x''\<rparr>),
         (4, blank\<lparr>ntype := ''ExpressionStatement'', parent := Some 0\<rparr>),
         (5, blank\<lparr>ntype := ''MemberExpression'', parent := Some 4, object := Some 6\<rparr>),
         (6, blank\<lparr>ntype := ''Identifier'', parent := Some 5, name := ''x''\<rparr>),
         (7, blank\<lparr>ntype := ''Identifier'', parent := Some 5, name := property\<rparr>)] blank,
      variables = table [(0, \<lparr>references = [\<lparr>isRead = True, ident = 6\<rparr>], defs = 1\<rparr>)] no_variable,
      getInnermostScope = (\<lambda>initialScope nd. bare_import_module_scope),
      getPropertyName = table [(5, Some property)] None,
      getStringIfConstant = (\<lambda>nd. None)\<rparr>"

text \<open>\<^verbatim>\<open>export * from "m";\<close>\<close>

definition export_all_env :: env where
  "export_all_env =
     \<lparr>nodes = table
        [(0, blank\<lparr>ntype := ''Program'', body := [1]\<rparr>),
         (1, blank\<lparr>ntype := ''ExportAllDeclaration'', parent := Some 0, source := Some ''m''\<rparr>)]
        blank,
      variables = (\<lambda>v. no_variable),
      getInnermostScope = (\<lambda>initialScope nd. initialScope),
      getPropertyName = (\<lambda>nd. None),
      getStringIfConstant = (\<lambda>nd. None)\<rparr>"

text \<open>\<^verbatim>\<open>(x = a).foo;\<close> where \<^verbatim>\<open>a\<close> and \<^verbatim>\<open>x\<close> are not declared in the file.\<close>

definition assign_env :: env where
  "assign_env =
     \<lparr>nodes = table
        [(0, blank\<lparr>ntype := ''Program'', body := [1]\<rparr>),
         (1, blank\<lparr>ntype := ''ExpressionStatement'', parent := Some 0\<rparr>),
         (2, blank\<lparr>ntype := ''MemberExpression'', parent := Some 1, object := Some 3\<rparr>),
         (3, blank\<lparr>ntype := ''AssignmentExpression'', parent := Some 2, left := Some 4,
                   right := Some 5\<rparr>),
         (4, blank\<lparr>ntype := ''Identifier'', parent := Some 3, name := ''x''\<rparr>),
         (5, blank\<lparr>ntype := ''Identifier'', parent := Some 3, name := ''a''\<rparr>),
         (6, blank\<lparr>ntype := ''Identifier'', parent := Some 2, name := ''foo''\<rparr>)] blank,
      variables = table
        [(0, \<lparr>references = [\<lparr>isRead = True, ident = 5\<rparr>], defs = 0\<rparr>),
         (1, \<lparr>references = [\<lparr>isRead = False, ident = 4\<rparr>], defs = 0\<rparr>)] no_variable,
      getInnermostScope = (\<lambda>initialScope nd. initialScope),
      getPropertyName = table [(2, Some ''foo'')] None,
      getStringIfConstant = (\<lambda>nd. None)\<rparr>"

definition assign_scope :: scope where
  "assign_scope = Scope (map_of [(''a'', 0), (''x'', 1)]) None 0"

text \<open>\<^verbatim>\<open>function window() {} window.x;\<close>\<close>

definition shadow_env :: env where
  "shadow_env =
     \<lparr>nodes = table
        [(0, blank\<lparr>ntype := ''Program'', body := [1, 4]\<rparr>),
         (1, blank\<lparr>ntype := ''FunctionDeclaration'', parent := Some 0\<rparr>),
         (2, blank\<lparr>ntype := ''Identifier'', parent := Some 1, name := ''window''\<rparr>),
         (3, blank\<lparr>ntype := ''BlockStatement'', parent := Some 1\<rparr>),
         (4, blank\<lparr>ntype := ''ExpressionStatement'', parent := Some 0\<rparr>),
         (5, blank\<lparr>ntype := ''MemberExpression'', parent := Some 4, object := Some 6\<rparr>),
         (6, blank\<lparr>ntype := ''Identifier'', parent := Some 5, name := ''window''\<rparr>),
         (7, blank\<lparr>ntype := ''Identifier'', parent := Some 5, name := ''x''\<rparr>)] blank,
      variables = table [(0, \<lparr>references = [\<lparr>isRead = True, ident = 6\<rparr>], defs = 1\<rparr>)] no_variable,
      getInnermostScope = (\<lambda>initialScope nd. initialScope),
      getPropertyName = table [(5, Some ''x'')] None,
      getStringIfConstant = (\<lambda>nd. None)\<rparr>"

definition shadow_scope :: scope where
  "shadow_scope = Scope (map_of [(''window'', 0)]) None 0"

section \<open>Proofs\<close>

subsection \<open>Generator combinators\<close>

lemma emits_skip: "emits P skip"
  by (simp add: emits_def skip_def)

lemma emits_abrupt: "emits P (abrupt c)"
  by (simp add: emits_def abrupt_def)

lemma emits_yield: "P r \<Longrightarrow> emits P (yield r)"
  by (simp add: emits_def yield_def split: option.split nat.split)

lemma emits_seq: "emits P g \<Longrightarrow> emits P h \<Longrightarrow> emits P (seq g h)"
proof -
  assume g: "emits P g" and h: "emits P h"
  show ?thesis
    unfolding emits_def
  proof
    fix s
    obtain rs c s1 where gs: "g s = (rs, c, s1)" by (cases "g s") auto
    obtain rs' c' s2 where hs: "h s1 = (rs', c', s2)" by (cases "h s1") auto
    from g gs have "list_all P rs" by (auto simp: emits_def dest: spec[of _ s])
    moreover from h hs have "list_all P rs'" by (auto simp: emits_def dest: spec[of _ s1])
    ultimately show "list_all P (fst (seq g h s))"
      by (cases c) (simp_all add: seq_def gs hs)
  qed
qed

lemma emits_for_of: "(\<And>x. x \<in> set xs \<Longrightarrow> emits P (b x)) \<Longrightarrow> emits P (for_of xs b)"
  by (induction xs) (simp_all add: emits_skip emits_seq)

lemma emits_try: "emits P g \<Longrightarrow> emits P (\<lambda>s. try_finally g fin (f s))"
proof -
  assume g: "emits P g"
  show ?thesis
    unfolding emits_def
  proof
    fix s
    obtain rs c s1 where gs: "g (f s) = (rs, c, s1)" by (cases "g (f s)") auto
    from g have "list_all P (fst (g (f s)))" by (simp add: emits_def)
    then show "list_all P (fst (try_finally g fin (f s)))"
      by (simp add: try_finally_def gs)
  qed
qed

lemma emits_if: "(c \<Longrightarrow> emits P g) \<Longrightarrow> (\<not> c \<Longrightarrow> emits P h) \<Longrightarrow> emits P (if c then g else h)"
  by simp

lemma emits_case_option:
  "(x = None \<Longrightarrow> emits P g) \<Longrightarrow> (\<And>y. x = Some y \<Longrightarrow> emits P (h y)) \<Longrightarrow>
   emits P (case x of None \<Rightarrow> g | Some y \<Rightarrow> h y)"
  by (cases x) simp_all

lemma emits_case_sum:
  "(\<And>y. x = Inl y \<Longrightarrow> emits P (g y)) \<Longrightarrow> (\<And>y. x = Inr y \<Longrightarrow> emits P (h y)) \<Longrightarrow>
   emits P (case x of Inl y \<Rightarrow> g y | Inr y \<Rightarrow> h y)"
  by (cases x) simp_all

lemma emits_case_prod:
  "(\<And>a b. x = (a, b) \<Longrightarrow> emits P (g a b)) \<Longrightarrow> emits P (case x of (a, b) \<Rightarrow> g a b)"
  by (cases x) simp_all

lemma keeps_if: "(c \<Longrightarrow> keeps_stack g) \<Longrightarrow> (\<not> c \<Longrightarrow> keeps_stack h) \<Longrightarrow> keeps_stack (if c then g else h)"
  by simp

lemma keeps_case_option:
  "(x = None \<Longrightarrow> keeps_stack g) \<Longrightarrow> (\<And>y. x = Some y \<Longrightarrow> keeps_stack (h y)) \<Longrightarrow>
   keeps_stack (case x of None \<Rightarrow> g | Some y \<Rightarrow> h y)"
  by (cases x) simp_all

lemma keeps_case_sum:
  "(\<And>y. x = Inl y \<Longrightarrow> keeps_stack (g y)) \<Longrightarrow> (\<And>y. x = Inr y \<Longrightarrow> keeps_stack (h y)) \<Longrightarrow>
   keeps_stack (case x of Inl y \<Rightarrow> g y | Inr y \<Rightarrow> h y)"
  by (cases x) simp_all

lemma keeps_case_prod:
  "(\<And>a b. x = (a, b) \<Longrightarrow> keeps_stack (g a b)) \<Longrightarrow> keeps_stack (case x of (a, b) \<Rightarrow> g a b)"
  by (cases x) simp_all


lemma emits_mono: "emits P g \<Longrightarrow> (\<And>r. P r \<Longrightarrow> Q r) \<Longrightarrow> emits Q g"
  by (auto simp: emits_def list_all_iff)

lemma keeps_skip: "keeps_stack skip"
  by (simp add: keeps_stack_def skip_def)

lemma keeps_abrupt: "keeps_stack (abrupt c)"
  by (simp add: keeps_stack_def abrupt_def)

lemma keeps_yield: "keeps_stack (yield r)"
  by (simp add: keeps_stack_def yield_def split: option.split nat.split)

lemma keeps_seq: "keeps_stack g \<Longrightarrow> keeps_stack h \<Longrightarrow> keeps_stack (seq g h)"
proof -
  assume g: "keeps_stack g" and h: "keeps_stack h"
  show ?thesis
    unfolding keeps_stack_def
  proof
    fix s
    obtain rs c s1 where gs: "g s = (rs, c, s1)" by (cases "g s") auto
    obtain rs' c' s2 where hs: "h s1 = (rs', c', s2)" by (cases "h s1") auto
    from g gs have "variableStack s1 = variableStack s"
      by (auto simp: keeps_stack_def dest: spec[of _ s])
    moreover from h hs have "variableStack s2 = variableStack s1"
      by (auto simp: keeps_stack_def dest: spec[of _ s1])
    ultimately show "variableStack (snd (snd (seq g h s))) = variableStack s"
      by (cases c) (simp_all add: seq_def gs hs)
  qed
qed

lemma keeps_for_of: "(\<And>x. x \<in> set xs \<Longrightarrow> keeps_stack (b x)) \<Longrightarrow> keeps_stack (for_of xs b)"
  by (induction xs) (simp_all add: keeps_skip keeps_seq)

lemma keeps_try_push_pop:
  "keeps_stack g \<Longrightarrow> keeps_stack (\<lambda>s. try_finally g pop (push v s))"
proof -
  assume g: "keeps_stack g"
  show ?thesis
    unfolding keeps_stack_def
  proof
    fix s
    obtain rs c s1 where gs: "g (push v s) = (rs, c, s1)" by (cases "g (push v s)") auto
    from g gs have "variableStack s1 = variableStack s @ [v]"
      by (auto simp: keeps_stack_def push_def dest: spec[of _ "push v s"])
    then show "variableStack (snd (snd (try_finally g pop (push v s)))) = variableStack s"
      by (simp add: try_finally_def gs pop_def)
  qed
qed

lemmas keeps_rules = keeps_if keeps_case_option keeps_case_sum keeps_case_prod keeps_seq
  keeps_for_of keeps_skip keeps_abrupt keeps_yield

lemma keeps_core:
  "(\<forall>v p t sr. keeps_stack (iterateVariableReferences E this n v p t sr)) \<and>
   (\<forall>nd p t. keeps_stack (iteratePropertyReferences E this n nd p t)) \<and>
   (\<forall>pn p t. keeps_stack (iterateLhsReferences E this n pn p t))"
proof (induction n)
  case 0
  show ?case
    by (auto simp: keeps_abrupt) (simp add: keeps_stack_def)
next
  case (Suc n)
  then have IHV: "\<And>v p t sr. keeps_stack (iterateVariableReferences E this n v p t sr)"
    and IHP: "\<And>nd p t. keeps_stack (iteratePropertyReferences E this n nd p t)"
    and IHL: "\<And>pn p t. keeps_stack (iterateLhsReferences E this n pn p t)"
    by blast+
  have V: "keeps_stack (iterateVariableReferences E this (Suc n) v p t sr)" for v p t sr
  proof -
    let ?body = "case v of None \<Rightarrow> abrupt (Throw TypeError)
        | Some v' \<Rightarrow> for_of (references (variables E v')) (\<lambda>reference.
            if \<not> isRead reference then skip
            else seq (if sr \<and> truthy (onRead t)
                      then yield \<lparr>node = ident reference, path = p, rtype = READ, entry = onRead t\<rparr>
                      else skip)
                     (iteratePropertyReferences E this n (ident reference) p t))"
    have "keeps_stack ?body"
      by (intro keeps_rules IHP)
    then have "keeps_stack (\<lambda>s. try_finally ?body pop (push v s))"
      by (rule keeps_try_push_pop)
    then show ?thesis
      by (simp add: keeps_stack_def)
  qed
  have P: "keeps_stack (iteratePropertyReferences E this (Suc n) nd p t)" for nd p t
    unfolding iteratePropertyReferences.simps Let_def
    by (intro keeps_rules IHP IHL)
  have L: "keeps_stack (iterateLhsReferences E this (Suc n) pn p t)" for pn p t
    unfolding iterateLhsReferences.simps Let_def
    by (intro keeps_rules IHV IHL)
  from V P L show ?case by blast
qed

subsection \<open>Reports follow the trace map\<close>

lemma extends_step:
  assumes "own t key = Some t'" and "extends (p @ [key]) t' r"
  shows "extends p t r"
proof -
  from assms(2) obtain q where q: "path r = (p @ [key]) @ q"
    by (auto simp: extends_def prefix_def)
  then have "drop (length p) (path r) = key # q" by simp
  moreover from q have "drop (length (p @ [key])) (path r) = q" by simp
  ultimately show ?thesis
    using assms q by (simp add: extends_def marked_def)
qed

lemma extends_here:
  "truthy (sym t k) \<Longrightarrow> extends p t \<lparr>node = nd, path = p, rtype = k, entry = sym t k\<rparr>"
  by (simp add: extends_def marked_def)

lemma extends_child:
  "own t key = Some t' \<Longrightarrow> truthy (sym t' k) \<Longrightarrow>
   extends p t \<lparr>node = nd, path = p @ [key], rtype = k, entry = sym t' k\<rparr>"
  by (simp add: extends_def marked_def)

lemmas emits_rules = emits_if emits_case_option emits_case_sum emits_case_prod emits_seq
  emits_for_of emits_skip emits_abrupt emits_yield

lemma emits_core:
  "(\<forall>v p t sr. emits (extends p t) (iterateVariableReferences E this n v p t sr)) \<and>
   (\<forall>nd p t. emits (extends p t) (iteratePropertyReferences E this n nd p t)) \<and>
   (\<forall>pn p t. emits (extends p t) (iterateLhsReferences E this n pn p t))"
proof (induction n)
  case 0
  show ?case
    by (auto simp: emits_abrupt) (simp add: emits_def)
next
  case (Suc n)
  then have IHV: "\<And>v p t sr. emits (extends p t) (iterateVariableReferences E this n v p t sr)"
    and IHP: "\<And>nd p t. emits (extends p t) (iteratePropertyReferences E this n nd p t)"
    and IHL: "\<And>pn p t. emits (extends p t) (iterateLhsReferences E this n pn p t)"
    by blast+
  have IHP': "emits (extends p t) (iteratePropertyReferences E this n nd (p @ [key]) t')"
    if "own t key = Some t'" for nd p t key t'
    by (rule emits_mono [OF IHP [of "p @ [key]" t' nd]]) (rule extends_step [OF that])
  have IHL': "emits (extends p t) (iterateLhsReferences E this n pn (p @ [key]) t')"
    if "own t key = Some t'" for pn p t key t'
    by (rule emits_mono [OF IHL [of "p @ [key]" t' pn]]) (rule extends_step [OF that])
  have V: "emits (extends p t) (iterateVariableReferences E this (Suc n) v p t sr)" for v p t sr
  proof -
    let ?body = "case v of None \<Rightarrow> abrupt (Throw TypeError)
        | Some v' \<Rightarrow> for_of (references (variables E v')) (\<lambda>reference.
            if \<not> isRead reference then skip
            else seq (if sr \<and> truthy (onRead t)
                      then yield \<lparr>node = ident reference, path = p, rtype = READ, entry = onRead t\<rparr>
                      else skip)
                     (iteratePropertyReferences E this n (ident reference) p t))"
    have "emits (extends p t) ?body"
      by (intro emits_rules IHP) (use extends_here [of t READ] in simp)
    then have "emits (extends p t) (\<lambda>s. try_finally ?body pop (push v s))"
      by (rule emits_try)
    then show ?thesis
      by (simp add: emits_def)
  qed
  have P: "emits (extends p t) (iteratePropertyReferences E this (Suc n) nd p t)" for nd p t
    unfolding iteratePropertyReferences.simps Let_def
    apply (intro emits_rules IHP IHL IHP')
    using extends_here [of t CALL] extends_here [of t CONSTRUCT] extends_child [of t _ _ READ]
    by simp_all
  have L: "emits (extends p t) (iterateLhsReferences E this (Suc n) pn p t)" for pn p t
    unfolding iterateLhsReferences.simps Let_def
    apply (intro emits_rules IHV IHL IHL')
    using extends_child [of t _ _ READ]
    by simp_all
  from V P L show ?case by blast
qed

subsection \<open>Trace maps, path filter and the loop over a generator\<close>

lemma own_entry:
  assumes "(key, t') \<in> set (Object_entries t)"
  shows "own t key = Some t'"
proof -
  from assms have "map_of (AList.clearjunk (children t)) key = Some t'"
    unfolding Object_entries_def by (intro map_of_is_SomeI distinct_clearjunk)
  then show ?thesis by (simp add: own_def map_of_clearjunk)
qed

lemma entry_own:
  assumes "own t key = Some t'"
  shows "(key, t') \<in> set (Object_entries t)"
proof -
  from assms have "map_of (AList.clearjunk (children t)) key = Some t'"
    by (simp add: own_def map_of_clearjunk)
  then show ?thesis unfolding Object_entries_def by (rule map_of_SomeD)
qed

lemma map_of_fold_update:
  "distinct (map fst xs) \<Longrightarrow>
   map_of (fold (\<lambda>(k, v). AList.update k v) xs al) k =
     (case map_of xs k of Some v \<Rightarrow> Some v | None \<Rightarrow> map_of al k)"
proof (induction xs arbitrary: al)
  case Nil
  then show ?case by simp
next
  case (Cons x xs)
  obtain k' v' where x: "x = (k', v')" by (cases x)
  from Cons.prems x have "map_of xs k' = None"
    by (simp add: map_of_eq_None_iff)
  with Cons x show ?case
    by (auto simp: update_conv' split: option.split)
qed

lemma own_assign:
  "own (Object_assign (default_only m) m) k =
     (case own m k of Some v \<Rightarrow> Some v | None \<Rightarrow> if k = ''default'' then Some m else None)"
  by (simp add: own_def Object_assign_def default_only_def Object_entries_def
        map_of_fold_update map_of_clearjunk split: option.split)

lemma sym_assign: "sym (Object_assign (default_only m) m) k = sym m k"
  by (cases k) (simp_all add: Object_assign_def default_only_def)

lemma own_default_only:
  "own (default_only m) k = (if k = ''default'' then Some m else None)"
  by (simp add: own_def default_only_def)

lemma sym_default_only: "sym (default_only m) k = JUndefined"
  by (cases k) (simp_all add: default_only_def)

lemma filter_from_all: "(\<And>x j. i \<le> j \<Longrightarrow> f x j) \<Longrightarrow> filter_from f i xs = xs"
  by (induction xs arbitrary: i) simp_all

lemma Array_filter_exceptDefault:
  "Array_filter exceptDefault [] = []"
  "Array_filter exceptDefault [a] = [a]"
  "Array_filter exceptDefault (a # b # rest) = (if b = ''default'' then a # rest else a # b # rest)"
proof -
  have "filter_from exceptDefault (Suc (Suc 0)) rest = rest"
    by (rule filter_from_all) (simp add: exceptDefault_def)
  then show "Array_filter exceptDefault (a # b # rest) =
      (if b = ''default'' then a # rest else a # b # rest)"
    by (simp add: Array_filter_def exceptDefault_def)
qed (simp_all add: Array_filter_def exceptDefault_def)

lemma emits_iff: "emits P g \<longleftrightarrow> (\<forall>s r. r \<in> set (fst (g s)) \<longrightarrow> P r)"
  by (auto simp: emits_def list_all_iff)

lemma emits_for_of_gen:
  assumes "emits Q it" and "\<And>r r'. Q r \<Longrightarrow> b r = Some r' \<Longrightarrow> P r'"
  shows "emits P (for_of_gen it b)"
proof -
  have "P r'" if "r' \<in> set (fst (for_of_gen it b s))" for s r'
  proof -
    obtain rs c s1 where run: "it (s\<lparr>closesAfter := None\<rparr>) = (rs, c, s1)"
      by (cases "it (s\<lparr>closesAfter := None\<rparr>)") auto
    from that run have "r' \<in> set (List.map_filter b rs)"
      by (auto simp: for_of_gen_def split: option.splits if_splits prod.splits dest: in_set_takeD)
    then obtain r where "r \<in> set rs" "b r = Some r'"
      by (auto simp: List.map_filter_def)
    moreover from assms(1) run have "\<forall>r \<in> set rs. Q r"
      by (auto simp: emits_iff dest: spec[of _ "s\<lparr>closesAfter := None\<rparr>"])
    ultimately show ?thesis using assms(2) by blast
  qed
  then show ?thesis by (auto simp: emits_iff)
qed

lemma keeps_for_of_gen:
  assumes "keeps_stack it"
  shows "keeps_stack (for_of_gen it b)"
proof -
  have k: "variableStack (snd (snd (it s))) = variableStack s" for s
    using assms by (simp add: keeps_stack_def)
  show ?thesis
    unfolding keeps_stack_def
  proof
    fix s
    obtain rs c s1 where run: "it (s\<lparr>closesAfter := None\<rparr>) = (rs, c, s1)"
      by (cases "it (s\<lparr>closesAfter := None\<rparr>)") auto
    obtain rs2 c2 s2 where run2:
      "it (s\<lparr>closesAfter := Some (pulls b rs (Suc (the (closesAfter s))) - 1)\<rparr>) = (rs2, c2, s2)"
      by (cases "it (s\<lparr>closesAfter := Some (pulls b rs (Suc (the (closesAfter s))) - 1)\<rparr>)") auto
    from k [of "s\<lparr>closesAfter := None\<rparr>"] run have 1: "variableStack s1 = variableStack s" by simp
    from k [of "s\<lparr>closesAfter := Some (pulls b rs (Suc (the (closesAfter s))) - 1)\<rparr>"] run2
    have 2: "variableStack s2 = variableStack s" by simp
    show "variableStack (snd (snd (for_of_gen it b s))) = variableStack s"
      using 1 2 run run2 by (auto simp: for_of_gen_def split: option.split)
  qed
qed

lemma marked_cong: "entry r' = entry r \<Longrightarrow> rtype r' = rtype r \<Longrightarrow> marked t q r' = marked t q r"
  by (cases "descend t q") (auto simp: marked_def)

lemma extends_root:
  assumes "own t key = Some t'" and "extends [key] t' r"
  shows "path r \<noteq> [] \<and> marked t (path r) r"
proof -
  from extends_step [of t key t' "[]" r] assms have "extends [] t r" by simp
  moreover from assms(2) have "path r \<noteq> []" by (auto simp: extends_def prefix_def)
  ultimately show ?thesis by (simp add: extends_def)
qed

lemma forward_wrapper:
  assumes ext: "extends [m] w r" and fwd: "forward r = Some r'"
    and w: "w = default_only t \<or> (w = Object_assign (default_only t) t \<and> own t ''default'' = None)"
  shows "extends [m] t r'"
proof -
  from ext obtain q where q: "path r = m # q" and mk: "marked w q r"
    by (auto simp: extends_def prefix_def)
  from fwd have r': "r' = r\<lparr>path := Array_filter exceptDefault (path r)\<rparr>"
    by (auto simp: forward_def Let_def split: if_splits)
  have same: "marked t q' r' = marked t q' r" for q'
    by (rule marked_cong) (simp_all add: r')
  show ?thesis
  proof (cases q)
    case Nil
    with mk have tr: "truthy (entry r)" and e: "entry r = sym w (rtype r)"
      by (auto simp: marked_def)
    from w tr e have "entry r = sym t (rtype r)"
      by (auto simp: sym_default_only sym_assign)
    with tr Nil q r' show ?thesis
      by (simp add: extends_def marked_def Array_filter_exceptDefault)
  next
    case (Cons k q')
    show ?thesis
    proof (cases "k = ''default''")
      case True
      with w have "own w k = Some t"
        by (auto simp: own_default_only own_assign)
      with mk Cons have "marked t q' r" by (simp add: marked_def)
      with True Cons q r' same [of q'] show ?thesis
        by (simp add: extends_def Array_filter_exceptDefault)
    next
      case False
      with w mk Cons have own: "own w k = own t k" and "own w k \<noteq> None"
        by (auto simp: own_default_only own_assign marked_def split: option.splits)
      with mk Cons have "marked t (k # q') r" by (simp add: marked_def)
      with False Cons q r' same [of "k # q'"] show ?thesis
        by (simp add: extends_def Array_filter_exceptDefault)
    qed
  qed
qed

subsection \<open>Reports of the entry strategies\<close>

lemma emits_for_of_pairs:
  "(\<And>k v. (k, v) \<in> set xs \<Longrightarrow> emits P (b k v)) \<Longrightarrow> emits P (for_of xs (\<lambda>(k, v). b k v))"
  by (rule emits_for_of) auto

lemma extends_root':
  "own t key = Some t' \<Longrightarrow> extends [key] t' r \<Longrightarrow> path r \<noteq> [] \<and> extends [] t r"
  using extends_root [of t key t' r] by (simp add: extends_def)

lemma emits_import:
  "emits (extends p t) (iterateImportReferences E this n sp p t)"
proof -
  have V: "emits (extends p t) (iterateVariableReferences E this n v p t sr)" for v sr
    using emits_core [of E this n] by blast
  have V': "emits (extends p t) (iterateVariableReferences E this n v (p @ [key]) t' sr)"
    if "own t key = Some t'" for v sr key t'
  proof (rule emits_mono)
    show "emits (extends (p @ [key]) t') (iterateVariableReferences E this n v (p @ [key]) t' sr)"
      using emits_core [of E this n] by blast
  qed (rule extends_step [OF that])
  show ?thesis
    unfolding iterateImportReferences_def Let_def
    apply (intro emits_rules V V')
    using extends_child [of t _ _ READ]
    by simp_all
qed

lemma emits_global:
  "emits (extends [] traceMap) (iterateGlobalReferences E this n traceMap)"
proof -
  have V: "emits (extends [] traceMap) (iterateVariableReferences E this n v [] traceMap sr)" for v sr
    using emits_core [of E this n] by blast
  have V': "emits (extends [] traceMap) (iterateVariableReferences E this n v [key] t' sr)"
    if "(key, t') \<in> set (Object_entries traceMap)" for v sr key t'
  proof (rule emits_mono)
    show "emits (extends [key] t') (iterateVariableReferences E this n v [key] t' sr)"
      using emits_core [of E this n] by blast
    show "extends [] traceMap r" if "extends [key] t' r" for r
      using extends_root' [OF own_entry that] \<open>(key, t') \<in> set (Object_entries traceMap)\<close> by simp
  qed
  show ?thesis
    unfolding iterateGlobalReferences_def
    by (intro emits_seq emits_for_of_pairs emits_rules V V')
qed

lemma emits_cjs:
  "emits (\<lambda>r. path r \<noteq> [] \<and> extends [] traceMap r) (iterateCjsReferences E this n traceMap)"
proof -
  have P': "emits (\<lambda>r. path r \<noteq> [] \<and> extends [] traceMap r)
      (iteratePropertyReferences E this n nd [key] t')"
    if "own traceMap key = Some t'" for nd key t'
  proof (rule emits_mono)
    show "emits (extends [key] t') (iteratePropertyReferences E this n nd [key] t')"
      using emits_core [of E this n] by blast
  qed (rule extends_root' [OF that])
  show ?thesis
    unfolding iterateCjsReferences_def Let_def
    apply (intro emits_rules P')
    using extends_child [of traceMap _ _ READ "[]"]
    by simp_all
qed

lemma emits_esm:
  assumes "default_free this traceMap"
  shows "emits (\<lambda>r. path r \<noteq> [] \<and> extends [] traceMap r) (iterateEsmReferences E this n traceMap)"
proof -
  let ?P = "\<lambda>r. path r \<noteq> [] \<and> extends [] traceMap r"
  have I: "emits ?P (iterateImportReferences E this n sp [m] t)"
    if "own traceMap m = Some t" for sp m t
    by (rule emits_mono [OF emits_import]) (rule extends_root' [OF that])
  have W: "emits ?P (for_of_gen (iterateImportReferences E this n sp [m]
        (if hasESM t then t
         else if mode this = ''legacy'' then Object_assign (default_only t) t
         else default_only t)) forward)"
    if own: "own traceMap m = Some t" and esm: "\<not> hasESM t" for sp m t
  proof (rule emits_for_of_gen [OF emits_import])
    fix r r'
    assume "extends [m] (if hasESM t then t
         else if mode this = ''legacy'' then Object_assign (default_only t) t
         else default_only t) r" and fwd: "forward r = Some r'"
    with esm have ext: "extends [m] (if mode this = ''legacy'' then Object_assign (default_only t) t
        else default_only t) r" by simp
    have "mode this = ''legacy'' \<Longrightarrow> own t ''default'' = None"
      using assms esm entry_own [OF own] by (auto simp: default_free_def list_all_iff)
    then have "extends [m] t r'"
      using forward_wrapper [OF ext fwd, of t] by auto
    then show "?P r'" by (rule extends_root' [OF own])
  qed
  have X: "emits ?P (yield \<lparr>node = nd, path = [m] @ [key], rtype = READ, entry = onRead t'\<rparr>)"
    if "own traceMap m = Some t" "(key, t') \<in> set (Object_entries t)" "truthy (onRead t')"
    for nd m t key t'
    using that extends_child [of t key t' READ "[m]" nd] own_entry
    by (intro emits_yield extends_root' [of traceMap m t]) auto
  have S: "emits ?P (specifier_references E this n m t sp)"
    if own: "own traceMap m = Some t" for sp m t
    unfolding specifier_references_def Let_def
    using W [OF own] I [OF own] by (intro emits_if) simp_all
  show ?thesis
    unfolding iterateEsmReferences_def Let_def
    apply (intro emits_for_of_pairs X emits_for_of S emits_rules)
    using extends_child [of traceMap _ _ READ "[]"]
    by simp_all
qed

subsection \<open>Loops that skip\<close>

lemma seq_skip_left: "seq skip g = g"
  by (rule ext) (simp add: seq_def skip_def split: prod.split)

lemma seq_skip_right: "seq g skip = g"
proof (rule ext)
  fix s
  obtain rs c s1 where "g s = (rs, c, s1)" by (cases "g s") auto
  then show "seq g skip s = g s"
    by (cases c) (simp_all add: seq_def skip_def)
qed

lemma for_of_filter:
  assumes "\<And>x. x \<in> set xs \<Longrightarrow> \<not> keep x \<Longrightarrow> b x = skip"
    and "\<And>x. x \<in> set xs \<Longrightarrow> keep x \<Longrightarrow> b x = b' x"
  shows "for_of xs b = for_of (filter keep xs) b'"
  using assms by (induction xs) (simp_all add: seq_skip_left)

subsection \<open>Evaluating the examples\<close>

lemma sentinel_simps:
  "SENTINEL_TYPE ''VariableDeclarator''" "SENTINEL_TYPE ''Program''"
  "SENTINEL_TYPE ''MemberExpression''" "SENTINEL_TYPE ''CallExpression''"
  "SENTINEL_TYPE ''AssignmentExpression''" "SENTINEL_TYPE ''ExpressionStatement''"
  "SENTINEL_TYPE ''VariableDeclaration''" "SENTINEL_TYPE ''ImportDeclaration''"
  "\<not> SENTINEL_TYPE ''Identifier''" "\<not> SENTINEL_TYPE ''Property''"
  "\<not> SENTINEL_TYPE ''ObjectPattern''" "\<not> SENTINEL_TYPE ''ImportSpecifier''"
  "\<not> SENTINEL_TYPE ''ImportDefaultSpecifier''"
  by (simp_all add: SENTINEL_TYPE_def some_then_def)

lemmas run_defs = table_def blank_def no_variable_def new_tracer_def fresh_def sentinel_simps
  findVariable_def try_finally_def push_def pop_def seq_def skip_def yield_def abrupt_def Let_def

lemma self_alias_run:
  "iterateVariableReferences self_alias_env (new_tracer self_alias_scope m) (Suc (Suc (Suc k)))
     (Some 0) p t sr fresh =
   (if sr \<and> truthy (onRead t)
    then [\<lparr>node = 4, path = p, rtype = READ, entry = onRead t\<rparr>] else [], Normal, fresh)"
  by (simp add: self_alias_env_def self_alias_scope_def run_defs)

lemmas esm_defs = iterateEsmReferences_def specifier_references_def iterateImportReferences_def
  for_of_gen_def forward_def Array_filter_def exceptDefault_def IMPORT_TYPE_def own_def obj_def
  leaf_def default_only_def Object_assign_def Object_entries_def

lemma cjs_run:
  "truthy e \<Longrightarrow>
   iterateCjsReferences require_env (new_tracer require_scope m) (Suc (Suc k))
     (obj [(''m'', obj [(''foo'', leaf e JUndefined JUndefined)])]) fresh =
   ([\<lparr>node = 2, path = [''m'', ''foo''], rtype = READ, entry = e\<rparr>], Normal, fresh)"
  by (simp add: iterateCjsReferences_def first_argument_def require_env_def require_scope_def
        own_def obj_def leaf_def run_defs)

lemma named_import_run:
  "truthy e \<Longrightarrow>
   iterateEsmReferences named_import_env (new_tracer named_import_scope ''legacy'') (Suc (Suc k))
     (obj [(''m'', obj [(''foo'', leaf e JUndefined JUndefined)])]) fresh =
   ([\<lparr>node = 2, path = [''m'', ''foo''], rtype = READ, entry = e\<rparr>], Normal, fresh)"
  by (simp add: esm_defs named_import_env_def named_import_scope_def
        named_import_module_scope_def run_defs)


lemma bare_import_run:
  "\<not> hasESM t \<Longrightarrow>
   iterateEsmReferences bare_import_env (new_tracer bare_import_scope ''strict'') (Suc k)
     (obj [(''m'', t)]) fresh =
   (if truthy (onRead t) then [\<lparr>node = 1, path = [''m''], rtype = READ, entry = onRead t\<rparr>] else [],
    Normal, fresh)"
  by (simp add: esm_defs bare_import_env_def bare_import_scope_def
        bare_import_module_scope_def run_defs)

lemma default_member_run:
  "truthy e \<Longrightarrow>
   iterateEsmReferences (default_import_env ''foo'') (new_tracer bare_import_scope ''strict'')
     (Suc (Suc (Suc k))) (obj [(''m'', obj [(''foo'', leaf e JUndefined JUndefined)])]) fresh =
   ([\<lparr>node = 5, path = [''m'', ''foo''], rtype = READ, entry = e\<rparr>], Normal, fresh)"
  by (simp add: esm_defs default_import_env_def bare_import_scope_def
        bare_import_module_scope_def run_defs)

lemma default_default_run:
  "truthy e \<Longrightarrow>
   iterateEsmReferences (default_import_env ''default'') (new_tracer bare_import_scope ''strict'')
     (Suc (Suc (Suc k))) (obj [(''m'', obj [(''default'', leaf e JUndefined JUndefined)])]) fresh =
   ([\<lparr>node = 5, path = [''m'', ''default''], rtype = READ, entry = e\<rparr>], Normal, fresh)"
  by (simp add: esm_defs default_import_env_def bare_import_scope_def
        bare_import_module_scope_def run_defs)

lemma legacy_default_run:
  "truthy e \<Longrightarrow>
   iterateEsmReferences (default_import_env ''foo'') (new_tracer bare_import_scope ''legacy'')
     (Suc (Suc (Suc k)))
     (obj [(''m'', obj [(''default'', obj [(''foo'', leaf e JUndefined JUndefined)])])]) fresh =
   ([\<lparr>node = 5, path = [''m'', ''foo''], rtype = READ, entry = e\<rparr>], Normal, fresh)"
  by (simp add: esm_defs default_import_env_def bare_import_scope_def
        bare_import_module_scope_def run_defs)

lemma export_all_run:
  "truthy e \<Longrightarrow>
   iterateEsmReferences export_all_env (new_tracer bare_import_scope m) k
     (obj [(''m'', obj [(''default'', leaf e JUndefined JUndefined)])]) fresh =
   ([\<lparr>node = 1, path = [''m'', ''default''], rtype = READ, entry = e\<rparr>], Normal, fresh)"
  by (simp add: esm_defs export_all_env_def bare_import_scope_def run_defs)

lemma assign_run:
  "truthy e \<Longrightarrow>
   iterateGlobalReferences assign_env (new_tracer assign_scope m) (Suc (Suc (Suc (Suc k))))
     (obj [(''a'', obj [(''foo'', leaf e JUndefined JUndefined)])]) fresh =
   ([\<lparr>node = 2, path = [''a'', ''foo''], rtype = READ, entry = e\<rparr>], Normal, fresh)"
  by (simp add: iterateGlobalReferences_def assign_env_def assign_scope_def
        own_def obj_def leaf_def Object_entries_def run_defs)

lemma shadow_run:
  "iterateGlobalReferences shadow_env (new_tracer shadow_scope m) k
     (obj [(''x'', leaf e JUndefined JUndefined)]) fresh = ([], Normal, fresh)"
  by (simp add: iterateGlobalReferences_def shadow_env_def shadow_scope_def
        own_def obj_def leaf_def Object_entries_def run_defs)

lemma destructure_run:
  "truthy e \<Longrightarrow>
   iterateGlobalReferences destructure_env (new_tracer destructure_scope m)
     (Suc (Suc (Suc (Suc (Suc (Suc (Suc k)))))))
     (obj [(''x'', obj [(''y'', leaf JUndefined e JUndefined)])]) fresh =
   ([\<lparr>node = 10, path = [''x'', ''y''], rtype = CALL, entry = e\<rparr>], Normal, fresh)"
  by (simp add: iterateGlobalReferences_def destructure_env_def destructure_scope_def
        own_def obj_def leaf_def Object_entries_def run_defs)

subsection \<open>Chained access on an assignment\<close>

lemma yield_emits: "r \<in> set (fst (yield r s))"
  by (simp add: yield_def split: option.split nat.split)

lemma seq_emits_first: "r \<in> set (fst (g s)) \<Longrightarrow> r \<in> set (fst (seq g h s))"
proof -
  assume a: "r \<in> set (fst (g s))"
  obtain rs c s1 where gs: "g s = (rs, c, s1)" by (cases "g s") auto
  obtain rs' c' s2 where hs: "h s1 = (rs', c', s2)" by (cases "h s1") auto
  from a gs hs show ?thesis by (cases c) (simp_all add: seq_def)
qed

lemma seq_emits_second:
  "g s = (rs, Normal, s1) \<Longrightarrow> r \<in> set (fst (h s1)) \<Longrightarrow> r \<in> set (fst (seq g h s))"
  by (cases "h s1") (simp add: seq_def)

lemma chained_access:
  assumes c: "climb E (Suc (Suc n)) rootNode = Inr (nd, a)"
    and a: "ntype (nodes E a) = ''AssignmentExpression''" "right (nodes E a) = Some nd"
    and m: "parent (nodes E a) = Some mem" "ntype (nodes E mem) = ''MemberExpression''"
      "object (nodes E mem) = Some a"
    and k: "getPropertyName E mem = Some key" "own t key = Some t'" "truthy (onRead t')"
    and l: "iterateLhsReferences E this (Suc n) (left (nodes E a)) p t s = (rs, Normal, s1)"
  shows "\<lparr>node = mem, path = p @ [key], rtype = READ, entry = onRead t'\<rparr> \<in>
    set (fst (iteratePropertyReferences E this (Suc (Suc n)) rootNode p t s))"
proof -
  let ?r = "\<lparr>node = mem, path = p @ [key], rtype = READ, entry = onRead t'\<rparr>"
  have up: "climb E (Suc n) a = Inr (a, mem)"
    using m by (simp add: sentinel_simps)
  have inner: "iteratePropertyReferences E this (Suc n) a p t =
      seq (yield ?r) (iteratePropertyReferences E this n mem (p @ [key]) t')"
    using up m k by (simp del: climb.simps)
  have "iteratePropertyReferences E this (Suc (Suc n)) rootNode p t =
      seq (iterateLhsReferences E this (Suc n) (left (nodes E a)) p t)
          (iteratePropertyReferences E this (Suc n) a p t)"
    using c a
    by (simp del: climb.simps iteratePropertyReferences.simps iterateLhsReferences.simps
          add: iteratePropertyReferences.simps(2) [where n = "Suc n"])
  moreover have "?r \<in> set (fst (iteratePropertyReferences E this (Suc n) a p t s1))"
    unfolding inner by (rule seq_emits_first) (rule yield_emits)
  ultimately show ?thesis
    using l by (simp add: seq_emits_second)
qed

subsection \<open>More fuel changes no result\<close>

lemma stable_refl: "stable g g"
  by (simp add: stable_def)

lemma stable_no_fuel: "stable (abrupt NoFuel) g"
  by (simp add: stable_def abrupt_def)

lemma stable_seq: "stable g g' \<Longrightarrow> stable h h' \<Longrightarrow> stable (seq g h) (seq g' h')"
proof -
  assume g: "stable g g'" and h: "stable h h'"
  show ?thesis
    unfolding stable_def
  proof (intro allI impI)
    fix s
    assume nf: "fst (snd (seq g h s)) \<noteq> NoFuel"
    obtain rs c s1 where gs: "g s = (rs, c, s1)" by (cases "g s") auto
    obtain rs' c' s2 where hs: "h s1 = (rs', c', s2)" by (cases "h s1") auto
    from nf gs hs have "c \<noteq> NoFuel" by (cases c) (simp_all add: seq_def)
    with g gs have g': "g' s = g s" by (simp add: stable_def)
    show "seq g' h' s = seq g h s"
    proof (cases "c = Normal")
      case True
      with nf gs hs have "c' \<noteq> NoFuel" by (simp add: seq_def)
      with h hs have "h' s1 = h s1" by (simp add: stable_def)
      with g' gs True show ?thesis by (simp add: seq_def)
    next
      case False
      with g' gs show ?thesis by (cases c) (simp_all add: seq_def)
    qed
  qed
qed

lemma stable_for_of:
  "(\<And>x. x \<in> set xs \<Longrightarrow> stable (b x) (b' x)) \<Longrightarrow> stable (for_of xs b) (for_of xs b')"
  by (induction xs) (simp_all add: stable_refl stable_seq)

lemma stable_if:
  "(c \<Longrightarrow> stable g g') \<Longrightarrow> (\<not> c \<Longrightarrow> stable h h') \<Longrightarrow>
   stable (if c then g else h) (if c then g' else h')"
  by simp

lemma stable_case_option:
  "(x = None \<Longrightarrow> stable g g') \<Longrightarrow> (\<And>y. x = Some y \<Longrightarrow> stable (h y) (h' y)) \<Longrightarrow>
   stable (case x of None \<Rightarrow> g | Some y \<Rightarrow> h y) (case x of None \<Rightarrow> g' | Some y \<Rightarrow> h' y)"
  by (cases x) simp_all

lemma stable_try:
  "stable g g' \<Longrightarrow> stable (\<lambda>s. try_finally g fin (f s)) (\<lambda>s. try_finally g' fin (f s))"
proof -
  assume g: "stable g g'"
  show ?thesis
    unfolding stable_def
  proof (intro allI impI)
    fix s
    assume nf: "fst (snd (try_finally g fin (f s))) \<noteq> NoFuel"
    obtain rs c s1 where gs: "g (f s) = (rs, c, s1)" by (cases "g (f s)") auto
    with nf have "c \<noteq> NoFuel" by (simp add: try_finally_def)
    with g gs have "g' (f s) = g (f s)" by (simp add: stable_def)
    then show "try_finally g' fin (f s) = try_finally g fin (f s)"
      by (simp add: try_finally_def)
  qed
qed

lemma climb_stable: "climb E n nd \<noteq> Inl NoFuel \<Longrightarrow> climb E (Suc n) nd = climb E n nd"
proof (induction n arbitrary: nd)
  case 0
  then show ?case by simp
next
  case (Suc n)
  show ?case
  proof (cases "parent (nodes E nd)")
    case None
    then show ?thesis by simp
  next
    case (Some p)
    show ?thesis
    proof (cases "SENTINEL_TYPE (ntype (nodes E p))")
      case True
      with Some show ?thesis by simp
    next
      case False
      with Some Suc.prems have "climb E n p \<noteq> Inl NoFuel" by simp
      then have "climb E (Suc n) p = climb E n p" by (rule Suc.IH)
      with Some False show ?thesis by simp
    qed
  qed
qed

lemmas stable_rules = stable_if stable_case_option stable_seq stable_for_of stable_refl

lemma fuel_stable:
  "(\<forall>v p t sr. stable (iterateVariableReferences E this n v p t sr)
       (iterateVariableReferences E this (Suc n) v p t sr)) \<and>
   (\<forall>nd p t. stable (iteratePropertyReferences E this n nd p t)
       (iteratePropertyReferences E this (Suc n) nd p t)) \<and>
   (\<forall>pn p t. stable (iterateLhsReferences E this n pn p t)
       (iterateLhsReferences E this (Suc n) pn p t))"
proof (induction n)
  case 0
  show ?case
    by (auto simp: stable_no_fuel simp del: iterateVariableReferences.simps
          iteratePropertyReferences.simps(2) iterateLhsReferences.simps(2))
       (simp add: stable_def)
next
  case (Suc n)
  then have IHV: "\<And>v p t sr. stable (iterateVariableReferences E this n v p t sr)
       (iterateVariableReferences E this (Suc n) v p t sr)"
    and IHP: "\<And>nd p t. stable (iteratePropertyReferences E this n nd p t)
       (iteratePropertyReferences E this (Suc n) nd p t)"
    and IHL: "\<And>pn p t. stable (iterateLhsReferences E this n pn p t)
       (iterateLhsReferences E this (Suc n) pn p t)"
    by blast+
  have V: "stable (iterateVariableReferences E this (Suc n) v p t sr)
      (iterateVariableReferences E this (Suc (Suc n)) v p t sr)" for v p t sr
  proof -
    let ?body = "\<lambda>k. case v of None \<Rightarrow> abrupt (Throw TypeError)
        | Some v' \<Rightarrow> for_of (references (variables E v')) (\<lambda>reference.
            if \<not> isRead reference then skip
            else seq (if sr \<and> truthy (onRead t)
                      then yield \<lparr>node = ident reference, path = p, rtype = READ, entry = onRead t\<rparr>
                      else skip)
                     (iteratePropertyReferences E this k (ident reference) p t))"
    have "stable (?body n) (?body (Suc n))"
      by (intro stable_rules IHP)
    then have "stable (\<lambda>s. try_finally (?body n) pop (push v s))
        (\<lambda>s. try_finally (?body (Suc n)) pop (push v s))"
      by (rule stable_try)
    then show ?thesis
      by (simp add: stable_def del: iteratePropertyReferences.simps)
  qed
  have P: "stable (iteratePropertyReferences E this (Suc n) nd p t)
      (iteratePropertyReferences E this (Suc (Suc n)) nd p t)" for nd p t
  proof (cases "climb E (Suc n) nd = Inl NoFuel")
    case True
    then show ?thesis
      by (simp add: stable_no_fuel del: climb.simps)
  next
    case False
    then have c: "climb E (Suc (Suc n)) nd = climb E (Suc n) nd"
      by (rule climb_stable)
    show ?thesis
    proof (cases "climb E (Suc n) nd")
      case (Inl c')
      with c show ?thesis
        by (simp add: stable_refl iteratePropertyReferences.simps(2) [where n = "Suc n"]
              iteratePropertyReferences.simps(2) [where n = n]
              del: climb.simps iteratePropertyReferences.simps)
    next
      case (Inr x)
      obtain nd' parent' where x: "x = (nd', parent')" by (cases x)
      define next' where "next' = iteratePropertyReferences E this (Suc (Suc n)) nd p t"
      have "stable (iteratePropertyReferences E this (Suc n) nd p t) next'"
        unfolding iteratePropertyReferences.simps(2) [where n = n]
        unfolding next'_def iteratePropertyReferences.simps(2) [where n = "Suc n"] c Inr x
        apply (simp only: sum.case prod.case Let_def)
        by (intro stable_rules IHP IHL)
      then show ?thesis by (simp only: next'_def)
    qed
  qed
  have L: "stable (iterateLhsReferences E this (Suc n) pn p t)
      (iterateLhsReferences E this (Suc (Suc n)) pn p t)" for pn p t
  proof -
    define next' where "next' = iterateLhsReferences E this (Suc (Suc n)) pn p t"
    have "stable (iterateLhsReferences E this (Suc n) pn p t) next'"
      unfolding iterateLhsReferences.simps(2) [where n = n]
      unfolding next'_def iterateLhsReferences.simps(2) [where n = "Suc n"] Let_def
      by (intro stable_rules IHV IHL)
    then show ?thesis by (simp only: next'_def)
  qed
  from V P L show ?case by blast
qed

lemma more_fuel:
  "fst (snd (iterateVariableReferences E this n v p t sr s)) \<noteq> NoFuel \<Longrightarrow>
     iterateVariableReferences E this (n + k) v p t sr s =
     iterateVariableReferences E this n v p t sr s"
  "fst (snd (iteratePropertyReferences E this n nd p t s)) \<noteq> NoFuel \<Longrightarrow>
     iteratePropertyReferences E this (n + k) nd p t s =
     iteratePropertyReferences E this n nd p t s"
  "fst (snd (iterateLhsReferences E this n pn p t s)) \<noteq> NoFuel \<Longrightarrow>
     iterateLhsReferences E this (n + k) pn p t s =
     iterateLhsReferences E this n pn p t s"
proof -
  have step: "stable (iterateVariableReferences E this m v p t sr)
        (iterateVariableReferences E this (Suc m) v p t sr) \<and>
      stable (iteratePropertyReferences E this m nd p t)
        (iteratePropertyReferences E this (Suc m) nd p t) \<and>
      stable (iterateLhsReferences E this m pn p t)
        (iterateLhsReferences E this (Suc m) pn p t)" for m
    using fuel_stable [of E this m] by blast
  show "fst (snd (iterateVariableReferences E this n v p t sr s)) \<noteq> NoFuel \<Longrightarrow>
     iterateVariableReferences E this (n + k) v p t sr s =
     iterateVariableReferences E this n v p t sr s"
  proof (induction k)
    case 0
    show ?case by (simp del: iterateVariableReferences.simps)
  next
    case (Suc k)
    with step [of "n + k"] show ?case
      by (simp add: stable_def del: iterateVariableReferences.simps)
  qed
  show "fst (snd (iteratePropertyReferences E this n nd p t s)) \<noteq> NoFuel \<Longrightarrow>
     iteratePropertyReferences E this (n + k) nd p t s =
     iteratePropertyReferences E this n nd p t s"
  proof (induction k)
    case 0
    show ?case by (simp del: iteratePropertyReferences.simps)
  next
    case (Suc k)
    with step [of "n + k"] show ?case
      by (simp add: stable_def del: iteratePropertyReferences.simps)
  qed
  show "fst (snd (iterateLhsReferences E this n pn p t s)) \<noteq> NoFuel \<Longrightarrow>
     iterateLhsReferences E this (n + k) pn p t s =
     iterateLhsReferences E this n pn p t s"
  proof (induction k)
    case 0
    show ?case by (simp del: iterateLhsReferences.simps)
  next
    case (Suc k)
    with step [of "n + k"] show ?case
      by (simp add: stable_def del: iterateLhsReferences.simps)
  qed
qed

subsection \<open>No error on a well-linked tree\<close>






















section \<open>The claims\<close>

text \<open>
  C4.  Propagating a variable that is already on the traversal stack yields nothing and
  completes at once, whatever the fuel.  Otherwise the body of the call, the loop over the
  references of the variable, runs from the stack with the variable pushed, inside
  \<^verbatim>\<open>try\<close>-\<^verbatim>\<open>finally\<close>; and however the call completes (normally, closed by the consumer at
  a \<^verbatim>\<open>yield\<close>, or by a thrown error), the stack it leaves is the stack it found.
  Consequently the self alias \<^verbatim>\<open>let x = x;\<close> is traversed to normal completion with three
  units of fuel or more, for every path, trace map and flag, and yields the one report of
  the read in the initialiser, or none: no error and no duplicate.
\<close>

theorem variable_stack_guard:
  "(variable \<in> set (variableStack s) \<longrightarrow>
      iterateVariableReferences E this n variable p t sr s = ([], Normal, s)) \<and>
   (variable \<notin> set (variableStack s) \<longrightarrow>
      iterateVariableReferences E this (Suc n) variable p t sr s =
        try_finally
          (case variable of
             None \<Rightarrow> abrupt (Throw TypeError)
           | Some v \<Rightarrow>
               for_of (references (variables E v)) (\<lambda>reference.
                 if \<not> isRead reference then skip
                 else seq
                   (if sr \<and> truthy (onRead t)
                    then yield \<lparr>node = ident reference, path = p, rtype = READ, entry = onRead t\<rparr>
                    else skip)
                   (iteratePropertyReferences E this n (ident reference) p t)))
          pop (s\<lparr>variableStack := variableStack s @ [variable]\<rparr>)) \<and>
   (iterateVariableReferences E this n variable p t sr s = (rs, c, s') \<longrightarrow>
      variableStack s' = variableStack s) \<and>
   iterateVariableReferences self_alias_env (new_tracer self_alias_scope m) (Suc (Suc (Suc k)))
       (Some 0) p t sr fresh =
     (if sr \<and> truthy (onRead t)
      then [\<lparr>node = 4, path = p, rtype = READ, entry = onRead t\<rparr>] else [], Normal, fresh)"
proof (intro conjI impI)
  assume "variable \<in> set (variableStack s)"
  then show "iterateVariableReferences E this n variable p t sr s = ([], Normal, s)"
    by simp
next
  assume "variable \<notin> set (variableStack s)"
  then show "iterateVariableReferences E this (Suc n) variable p t sr s =
        try_finally
          (case variable of
             None \<Rightarrow> abrupt (Throw TypeError)
           | Some v \<Rightarrow>
               for_of (references (variables E v)) (\<lambda>reference.
                 if \<not> isRead reference then skip
                 else seq
                   (if sr \<and> truthy (onRead t)
                    then yield \<lparr>node = ident reference, path = p, rtype = READ, entry = onRead t\<rparr>
                    else skip)
                   (iteratePropertyReferences E this n (ident reference) p t)))
          pop (s\<lparr>variableStack := variableStack s @ [variable]\<rparr>)"
    by (simp add: push_def)
next
  assume run: "iterateVariableReferences E this n variable p t sr s = (rs, c, s')"
  have "keeps_stack (iterateVariableReferences E this n variable p t sr)"
    using keeps_core [of E this n] by blast
  then have "variableStack (snd (snd (iterateVariableReferences E this n variable p t sr s))) =
      variableStack s"
    by (simp add: keeps_stack_def)
  with run show "variableStack s' = variableStack s"
    by simp
next
  show "iterateVariableReferences self_alias_env (new_tracer self_alias_scope m) (Suc (Suc (Suc k)))
       (Some 0) p t sr fresh =
     (if sr \<and> truthy (onRead t)
      then [\<lparr>node = 4, path = p, rtype = READ, entry = onRead t\<rparr>] else [], Normal, fresh)"
    by (rule self_alias_run)
qed

theorem variable_stack_guard_witness:
  "Some 0 \<in> set (variableStack \<lparr>variableStack = [Some 0], closesAfter = None\<rparr>) \<and>
   iterateVariableReferences self_alias_env (new_tracer self_alias_scope ''strict'') 0 (Some 0)
       [''a''] (leaf (JStr ''E'') JUndefined JUndefined) True
       \<lparr>variableStack = [Some 0], closesAfter = None\<rparr> =
     ([], Normal, \<lparr>variableStack = [Some 0], closesAfter = None\<rparr>) \<and>
   None \<notin> set (variableStack fresh) \<and>
   iterateVariableReferences self_alias_env (new_tracer self_alias_scope ''strict'') (Suc 0) None
       [''a''] (leaf (JStr ''E'') JUndefined JUndefined) True fresh =
     ([], Throw TypeError, fresh) \<and>
   variableStack fresh = [] \<and>
   iterateVariableReferences self_alias_env (new_tracer self_alias_scope ''strict'')
       (Suc (Suc (Suc 0))) (Some 0) [''a''] (leaf (JStr ''E'') JUndefined JUndefined) True fresh =
     ([\<lparr>node = 4, path = [''a''], rtype = READ, entry = JStr ''E''\<rparr>], Normal, fresh) \<and>
   iterateVariableReferences self_alias_env (new_tracer self_alias_scope ''strict'')
       (Suc (Suc (Suc 0))) (Some 0) [''a''] (leaf (JStr ''E'') JUndefined JUndefined) True
       \<lparr>variableStack = [], closesAfter = Some 0\<rparr> =
     ([\<lparr>node = 4, path = [''a''], rtype = READ, entry = JStr ''E''\<rparr>], Return,
      \<lparr>variableStack = [], closesAfter = Some 0\<rparr>)"
  using
    variable_stack_guard [where variable = "Some 0"
      and s = "\<lparr>variableStack = [Some 0], closesAfter = None\<rparr>" and E = self_alias_env
      and this = "new_tracer self_alias_scope ''strict''" and n = 0 and p = "[''a'']"
      and t = "leaf (JStr ''E'') JUndefined JUndefined" and sr = True and rs = "[]" and c = Normal
      and s' = "\<lparr>variableStack = [Some 0], closesAfter = None\<rparr>" and m = "''strict''"
      and k = 0]
    variable_stack_guard [where variable = None and s = fresh and E = self_alias_env
      and this = "new_tracer self_alias_scope ''strict''" and n = 0 and p = "[''a'']"
      and t = "leaf (JStr ''E'') JUndefined JUndefined" and sr = True and rs = "[]"
      and c = "Throw TypeError" and s' = fresh and m = "''strict''" and k = 0]
  by (simp add: fresh_def leaf_def try_finally_def abrupt_def pop_def)
     (simp add: self_alias_env_def self_alias_scope_def run_defs)

text \<open>
  Every report of the global-object strategy and of the CommonJS strategy has a path that
  leads, from the trace map of the caller, to the node whose payload the report carries;
  the paths of the CommonJS strategy start with the module key.  The ES-module strategy
  does the same when, in \<^verbatim>\<open>"legacy"\<close> mode, no module map without the \<^verbatim>\<open>ESM\<close> symbol owns a
  property \<^verbatim>\<open>default\<close>.  Inside the traversal, every report of the three generators
  extends the path the generator was given along the trace map it was given.
\<close>

lemma reports_follow_trace_map:
  "(r \<in> set (fst (iterateGlobalReferences E this n traceMap s)) \<longrightarrow>
      marked traceMap (path r) r) \<and>
   (r \<in> set (fst (iterateCjsReferences E this n traceMap s)) \<longrightarrow>
      path r \<noteq> [] \<and> marked traceMap (path r) r) \<and>
   (default_free this traceMap \<and> r \<in> set (fst (iterateEsmReferences E this n traceMap s)) \<longrightarrow>
      path r \<noteq> [] \<and> marked traceMap (path r) r) \<and>
   (r \<in> set (fst (iterateVariableReferences E this n v p t sr s)) \<longrightarrow>
      prefix p (path r) \<and> marked t (drop (length p) (path r)) r) \<and>
   (r \<in> set (fst (iteratePropertyReferences E this n nd p t s)) \<longrightarrow>
      prefix p (path r) \<and> marked t (drop (length p) (path r)) r) \<and>
   (r \<in> set (fst (iterateLhsReferences E this n pn p t s)) \<longrightarrow>
      prefix p (path r) \<and> marked t (drop (length p) (path r)) r)"
proof -
  have "emits (extends [] traceMap) (iterateGlobalReferences E this n traceMap)"
    by (rule emits_global)
  then have G: "r \<in> set (fst (iterateGlobalReferences E this n traceMap s)) \<longrightarrow>
      marked traceMap (path r) r"
    by (simp add: emits_iff extends_def)
  have "emits (\<lambda>r. path r \<noteq> [] \<and> extends [] traceMap r) (iterateCjsReferences E this n traceMap)"
    by (rule emits_cjs)
  then have C: "r \<in> set (fst (iterateCjsReferences E this n traceMap s)) \<longrightarrow>
      path r \<noteq> [] \<and> marked traceMap (path r) r"
    by (simp add: emits_iff extends_def)
  have M: "default_free this traceMap \<and>
      r \<in> set (fst (iterateEsmReferences E this n traceMap s)) \<longrightarrow>
      path r \<noteq> [] \<and> marked traceMap (path r) r"
  proof
    assume a: "default_free this traceMap \<and>
      r \<in> set (fst (iterateEsmReferences E this n traceMap s))"
    then have "emits (\<lambda>r. path r \<noteq> [] \<and> extends [] traceMap r)
        (iterateEsmReferences E this n traceMap)"
      by (intro emits_esm) simp
    then have "\<forall>s r. r \<in> set (fst (iterateEsmReferences E this n traceMap s)) \<longrightarrow>
        path r \<noteq> [] \<and> marked traceMap (path r) r"
      by (simp add: emits_iff extends_def)
    with a show "path r \<noteq> [] \<and> marked traceMap (path r) r"
      by blast
  qed
  have "emits (extends p t) (iterateVariableReferences E this n v p t sr)"
    using emits_core [of E this n] by blast
  then have V: "r \<in> set (fst (iterateVariableReferences E this n v p t sr s)) \<longrightarrow>
      prefix p (path r) \<and> marked t (drop (length p) (path r)) r"
    by (auto simp: emits_iff extends_def simp del: iterateVariableReferences.simps)
  have "emits (extends p t) (iteratePropertyReferences E this n nd p t)"
    using emits_core [of E this n] by blast
  then have P: "r \<in> set (fst (iteratePropertyReferences E this n nd p t s)) \<longrightarrow>
      prefix p (path r) \<and> marked t (drop (length p) (path r)) r"
    by (auto simp: emits_iff extends_def)
  have "emits (extends p t) (iterateLhsReferences E this n pn p t)"
    using emits_core [of E this n] by blast
  then have L: "r \<in> set (fst (iterateLhsReferences E this n pn p t s)) \<longrightarrow>
      prefix p (path r) \<and> marked t (drop (length p) (path r)) r"
    by (auto simp: emits_iff extends_def)
  from G C M V P L show ?thesis by blast
qed

text \<open>
  C1.  The claim fails on the code in \<^verbatim>\<open>"legacy"\<close> mode for a module map that has no \<^verbatim>\<open>ESM\<close>
  symbol and owns a property \<^verbatim>\<open>default\<close>.  For \<^verbatim>\<open>import x from "m"; x.foo;\<close> and the trace
  map \<^verbatim>\<open>{m: {default: {foo: {[READ]: e}}}}\<close> the ES-module strategy yields one report, at the
  member expression, with the path \<^verbatim>\<open>["m", "foo"]\<close> and the entry \<open>e\<close>; no node of the trace
  map lies at that path (the payload is stored at \<^verbatim>\<open>["m", "default", "foo"]\<close>).
\<close>

theorem legacy_default_path_off_map:
  "truthy e \<Longrightarrow>
   iterateEsmReferences (default_import_env ''foo'') (new_tracer bare_import_scope ''legacy'')
       (Suc (Suc (Suc k)))
       (obj [(''m'', obj [(''default'', obj [(''foo'', leaf e JUndefined JUndefined)])])]) fresh =
     ([\<lparr>node = 5, path = [''m'', ''foo''], rtype = READ, entry = e\<rparr>], Normal, fresh) \<and>
   descend (obj [(''m'', obj [(''default'', obj [(''foo'', leaf e JUndefined JUndefined)])])])
       [''m'', ''foo''] = None \<and>
   descend (obj [(''m'', obj [(''default'', obj [(''foo'', leaf e JUndefined JUndefined)])])])
       [''m'', ''default'', ''foo''] = Some (leaf e JUndefined JUndefined)"
  by (simp add: legacy_default_run) (simp add: own_def obj_def)

theorem legacy_default_path_off_map_witness:
  "truthy (JStr ''E'') \<and>
   fst (iterateEsmReferences (default_import_env ''foo'')
          (new_tracer bare_import_scope ''legacy'') 3
          (obj [(''m'', obj [(''default'',
              obj [(''foo'', leaf (JStr ''E'') JUndefined JUndefined)])])]) fresh) =
     [\<lparr>node = 5, path = [''m'', ''foo''], rtype = READ, entry = JStr ''E''\<rparr>] \<and>
   \<not> marked (obj [(''m'', obj [(''default'',
              obj [(''foo'', leaf (JStr ''E'') JUndefined JUndefined)])])])
       [''m'', ''foo''] \<lparr>node = 5, path = [''m'', ''foo''], rtype = READ, entry = JStr ''E''\<rparr>"
  using legacy_default_path_off_map [where e = "JStr ''E''" and k = 0]
  by (simp add: marked_def numeral_3_eq_3)

text \<open>
  C2.  The global-object strategy is the loop over the top-level entries of the trace map
  whose key names a variable of the global scope with no declaring definition, each
  propagated with the path \<open>[key]\<close>, the child map and \<open>shouldReport = True\<close>, followed by the
  loop over the configured names of the global object that name such a variable, each
  propagated with the empty path, the whole trace map and \<open>shouldReport = False\<close>.  A name
  that is absent from the global scope, or whose variable has a declaring definition,
  contributes nothing: when no key and no configured name is an undeclared global, the
  strategy yields no report (so it does for \<^verbatim>\<open>function window() {} window.x;\<close>).
\<close>

theorem global_strategy_undeclared_only:
  "iterateGlobalReferences E this n traceMap =
     seq
       (for_of (filter (\<lambda>(key, nextTraceMap). undeclared E this key \<noteq> None)
                  (Object_entries traceMap))
          (\<lambda>(key, nextTraceMap).
             iterateVariableReferences E this n (undeclared E this key) [key] nextTraceMap True))
       (for_of (filter (\<lambda>key. undeclared E this key \<noteq> None) (globalObjectNames this))
          (\<lambda>key. iterateVariableReferences E this n (undeclared E this key) [] traceMap False)) \<and>
   ((\<forall>key \<in> fst ` set (Object_entries traceMap) \<union> set (globalObjectNames this).
        undeclared E this key = None) \<longrightarrow>
      iterateGlobalReferences E this n traceMap s = ([], Normal, s))"
proof
  have 1: "for_of (Object_entries traceMap) (\<lambda>(key, nextTraceMap).
          case scope_set (globalScope this) key of
            None \<Rightarrow> skip
          | Some variable \<Rightarrow>
              if defs (variables E variable) \<noteq> 0 then skip
              else iterateVariableReferences E this n (Some variable) [key] nextTraceMap True) =
      for_of (filter (\<lambda>(key, nextTraceMap). undeclared E this key \<noteq> None)
                  (Object_entries traceMap))
          (\<lambda>(key, nextTraceMap).
             iterateVariableReferences E this n (undeclared E this key) [key] nextTraceMap True)"
    by (rule for_of_filter) (auto simp: undeclared_def split: option.splits if_splits)
  have 2: "for_of (globalObjectNames this) (\<lambda>key.
          case scope_set (globalScope this) key of
            None \<Rightarrow> skip
          | Some variable \<Rightarrow>
              if defs (variables E variable) \<noteq> 0 then skip
              else iterateVariableReferences E this n (Some variable) [] traceMap False) =
      for_of (filter (\<lambda>key. undeclared E this key \<noteq> None) (globalObjectNames this))
          (\<lambda>key. iterateVariableReferences E this n (undeclared E this key) [] traceMap False)"
    by (rule for_of_filter) (auto simp: undeclared_def split: option.splits if_splits)
  show eq: "iterateGlobalReferences E this n traceMap =
     seq
       (for_of (filter (\<lambda>(key, nextTraceMap). undeclared E this key \<noteq> None)
                  (Object_entries traceMap))
          (\<lambda>(key, nextTraceMap).
             iterateVariableReferences E this n (undeclared E this key) [key] nextTraceMap True))
       (for_of (filter (\<lambda>key. undeclared E this key \<noteq> None) (globalObjectNames this))
          (\<lambda>key. iterateVariableReferences E this n (undeclared E this key) [] traceMap False))"
    unfolding iterateGlobalReferences_def 1 2 ..
  show "(\<forall>key \<in> fst ` set (Object_entries traceMap) \<union> set (globalObjectNames this).
        undeclared E this key = None) \<longrightarrow>
      iterateGlobalReferences E this n traceMap s = ([], Normal, s)"
  proof
    assume none: "\<forall>key \<in> fst ` set (Object_entries traceMap) \<union> set (globalObjectNames this).
        undeclared E this key = None"
    have "undeclared E this key = None" if "(key, t') \<in> set (Object_entries traceMap)" for key t'
    proof -
      from that have "key \<in> fst ` set (Object_entries traceMap)" by force
      with none show ?thesis by (simp add: Ball_def)
    qed
    then have "filter (\<lambda>(key, nextTraceMap). undeclared E this key \<noteq> None)
        (Object_entries traceMap) = []"
      by (auto simp: filter_empty_conv)
    moreover from none have "filter (\<lambda>key. undeclared E this key \<noteq> None)
        (globalObjectNames this) = []"
      by (auto simp: filter_empty_conv)
    ultimately show "iterateGlobalReferences E this n traceMap s = ([], Normal, s)"
      unfolding eq by (simp add: seq_skip_left skip_def)
  qed
qed

theorem global_strategy_undeclared_only_witness:
  "undeclared shadow_env (new_tracer shadow_scope ''strict'') ''x'' = None \<and>
   undeclared shadow_env (new_tracer shadow_scope ''strict'') ''global'' = None \<and>
   undeclared shadow_env (new_tracer shadow_scope ''strict'') ''self'' = None \<and>
   undeclared shadow_env (new_tracer shadow_scope ''strict'') ''window'' = None \<and>
   defs (variables shadow_env 0) = 1 \<and>
   iterateGlobalReferences shadow_env (new_tracer shadow_scope ''strict'') 3
       (obj [(''x'', leaf (JObj 0) JUndefined JUndefined)]) fresh = ([], Normal, fresh)"
proof -
  have u: "undeclared shadow_env (new_tracer shadow_scope ''strict'') ''x'' = None \<and>
      undeclared shadow_env (new_tracer shadow_scope ''strict'') ''global'' = None \<and>
      undeclared shadow_env (new_tracer shadow_scope ''strict'') ''self'' = None \<and>
      undeclared shadow_env (new_tracer shadow_scope ''strict'') ''window'' = None \<and>
      defs (variables shadow_env 0) = 1"
    by (simp add: undeclared_def shadow_env_def shadow_scope_def new_tracer_def table_def)
  then have "\<forall>key \<in> fst ` set (Object_entries (obj [(''x'', leaf (JObj 0) JUndefined JUndefined)])) \<union>
        set (globalObjectNames (new_tracer shadow_scope ''strict'')).
      undeclared shadow_env (new_tracer shadow_scope ''strict'') key = None"
    by (simp add: Object_entries_def obj_def new_tracer_def)
  with global_strategy_undeclared_only [where E = shadow_env
      and this = "new_tracer shadow_scope ''strict''" and n = 3
      and traceMap = "obj [(''x'', leaf (JObj 0) JUndefined JUndefined)]" and s = fresh]
  have "iterateGlobalReferences shadow_env (new_tracer shadow_scope ''strict'') 3
       (obj [(''x'', leaf (JObj 0) JUndefined JUndefined)]) fresh = ([], Normal, fresh)"
    by blast
  with u show ?thesis by blast
qed

text \<open>
  C3.  The CommonJS strategy yields nothing when \<^verbatim>\<open>require\<close> is absent from the global scope
  or has a declaring definition.  Otherwise (every identifier that reads \<^verbatim>\<open>require\<close> having
  a parent node, as in a syntax tree) it is the loop over exactly those references of
  \<^verbatim>\<open>require\<close> that are a read and the callee of a call whose first argument resolves to a
  constant string that is an own key of the trace map; for each, a \<^verbatim>\<open>READ\<close> report at the
  call with the path \<open>[key]\<close> when the child map has a truthy \<^verbatim>\<open>READ\<close> payload, and then
  property matching rooted at the call with that path and the child map.
\<close>

theorem cjs_strategy_require_calls:
  "(undeclared E this ''require'' = None \<longrightarrow>
      iterateCjsReferences E this n traceMap s = ([], Normal, s)) \<and>
   (undeclared E this ''require'' = Some variable \<and>
    list_all (\<lambda>reference. isRead reference \<longrightarrow> parent (nodes E (ident reference)) \<noteq> None)
      (references (variables E variable)) \<longrightarrow>
      iterateCjsReferences E this n traceMap =
        for_of (filter (\<lambda>reference. require_call E traceMap reference \<noteq> None)
                  (references (variables E variable)))
          (\<lambda>reference.
             case require_call E traceMap reference of
               None \<Rightarrow> skip
             | Some (callNode, key, nextTraceMap) \<Rightarrow>
                 seq
                   (if truthy (onRead nextTraceMap)
                    then yield \<lparr>node = callNode, path = [key], rtype = READ,
                                entry = onRead nextTraceMap\<rparr>
                    else skip)
                   (iteratePropertyReferences E this n callNode [key] nextTraceMap)))"
proof (intro conjI impI)
  assume "undeclared E this ''require'' = None"
  then show "iterateCjsReferences E this n traceMap s = ([], Normal, s)"
    by (auto simp: iterateCjsReferences_def undeclared_def skip_def split: option.splits if_splits)
next
  assume a: "undeclared E this ''require'' = Some variable \<and>
    list_all (\<lambda>reference. isRead reference \<longrightarrow> parent (nodes E (ident reference)) \<noteq> None)
      (references (variables E variable))"
  then have v: "scope_set (globalScope this) ''require'' = Some variable"
    and d: "defs (variables E variable) = 0"
    by (auto simp: undeclared_def split: option.splits if_splits)
  from a have p: "\<forall>reference \<in> set (references (variables E variable)).
      isRead reference \<longrightarrow> parent (nodes E (ident reference)) \<noteq> None"
    by (simp add: list_all_iff)
  show "iterateCjsReferences E this n traceMap =
        for_of (filter (\<lambda>reference. require_call E traceMap reference \<noteq> None)
                  (references (variables E variable)))
          (\<lambda>reference.
             case require_call E traceMap reference of
               None \<Rightarrow> skip
             | Some (callNode, key, nextTraceMap) \<Rightarrow>
                 seq
                   (if truthy (onRead nextTraceMap)
                    then yield \<lparr>node = callNode, path = [key], rtype = READ,
                                entry = onRead nextTraceMap\<rparr>
                    else skip)
                   (iteratePropertyReferences E this n callNode [key] nextTraceMap))"
    unfolding iterateCjsReferences_def Let_def using v d
    apply simp
    apply (rule for_of_filter)
    using p by (fastforce simp: require_call_def split: option.splits if_splits)+
qed

theorem cjs_strategy_require_calls_witness:
  "undeclared require_env (new_tracer require_scope ''strict'') ''require'' = Some 0 \<and>
   list_all (\<lambda>reference. parent (nodes require_env (ident reference)) \<noteq> None)
     (references (variables require_env 0)) \<and>
   require_call require_env (obj [(''m'', obj [(''foo'', leaf (JObj 0) JUndefined JUndefined)])])
       \<lparr>isRead = True, ident = 4\<rparr> =
     Some (3, ''m'', obj [(''foo'', leaf (JObj 0) JUndefined JUndefined)]) \<and>
   iterateCjsReferences require_env (new_tracer require_scope ''strict'') 2
       (obj [(''m'', obj [(''foo'', leaf (JObj 0) JUndefined JUndefined)])]) =
     iteratePropertyReferences require_env (new_tracer require_scope ''strict'') 2 3 [''m'']
       (obj [(''foo'', leaf (JObj 0) JUndefined JUndefined)])"
proof -
  have u: "undeclared require_env (new_tracer require_scope ''strict'') ''require'' = Some 0"
    by (simp add: undeclared_def require_env_def require_scope_def new_tracer_def table_def)
  have r: "references (variables require_env 0) = [\<lparr>isRead = True, ident = 4\<rparr>]"
    by (simp add: require_env_def table_def)
  have p: "parent (nodes require_env 4) \<noteq> None"
    by (simp add: require_env_def table_def blank_def)
  have c: "require_call require_env
       (obj [(''m'', obj [(''foo'', leaf (JObj 0) JUndefined JUndefined)])])
       \<lparr>isRead = True, ident = 4\<rparr> =
     Some (3, ''m'', obj [(''foo'', leaf (JObj 0) JUndefined JUndefined)])"
    by (simp add: require_call_def require_env_def table_def blank_def first_argument_def
          own_def obj_def)
  have t: "\<not> truthy (onRead (obj [(''foo'', leaf (JObj 0) JUndefined JUndefined)]))"
    by (simp add: obj_def)
  from cjs_strategy_require_calls [where E = require_env
      and this = "new_tracer require_scope ''strict''" and variable = 0 and n = 2
      and traceMap = "obj [(''m'', obj [(''foo'', leaf (JObj 0) JUndefined JUndefined)])]"]
    u r p c t
  have "iterateCjsReferences require_env (new_tracer require_scope ''strict'') 2
       (obj [(''m'', obj [(''foo'', leaf (JObj 0) JUndefined JUndefined)])]) =
     iteratePropertyReferences require_env (new_tracer require_scope ''strict'') 2 3 [''m'']
       (obj [(''foo'', leaf (JObj 0) JUndefined JUndefined)])"
    by (simp add: seq_skip_left seq_skip_right)
  with u r p c show ?thesis by simp
qed

text \<open>
  C5.  In \<^verbatim>\<open>"legacy"\<close> mode, with the trace map \<^verbatim>\<open>{m: {foo: {[READ]: e}}}\<close> (no \<^verbatim>\<open>ESM\<close> symbol, \<open>e\<close>
  truthy): the CommonJS strategy on \<^verbatim>\<open>require("m").foo;\<close> and the ES-module strategy on
  \<^verbatim>\<open>import {foo} from "m"; foo;\<close> each yield exactly one report, of type \<^verbatim>\<open>READ\<close>, with the
  path \<^verbatim>\<open>["m", "foo"]\<close> and the entry \<open>e\<close>.  The report of the first is at the member
  expression, the report of the second at the import specifier.
\<close>

theorem legacy_require_and_import_agree:
  "truthy e \<Longrightarrow>
   iterateCjsReferences require_env (new_tracer require_scope ''legacy'') (Suc (Suc k))
       (obj [(''m'', obj [(''foo'', leaf e JUndefined JUndefined)])]) fresh =
     ([\<lparr>node = 2, path = [''m'', ''foo''], rtype = READ, entry = e\<rparr>], Normal, fresh) \<and>
   iterateEsmReferences named_import_env (new_tracer named_import_scope ''legacy'') (Suc (Suc k))
       (obj [(''m'', obj [(''foo'', leaf e JUndefined JUndefined)])]) fresh =
     ([\<lparr>node = 2, path = [''m'', ''foo''], rtype = READ, entry = e\<rparr>], Normal, fresh) \<and>
   ntype (nodes require_env 2) = ''MemberExpression'' \<and>
   ntype (nodes named_import_env 2) = ''ImportSpecifier''"
  by (simp add: cjs_run named_import_run)
     (simp add: require_env_def named_import_env_def table_def blank_def)

theorem legacy_require_and_import_agree_witness:
  "truthy (JObj 0) \<and>
   map path (fst (iterateCjsReferences require_env (new_tracer require_scope ''legacy'') 2
       (obj [(''m'', obj [(''foo'', leaf (JObj 0) JUndefined JUndefined)])]) fresh)) =
     [[''m'', ''foo'']] \<and>
   map path (fst (iterateEsmReferences named_import_env (new_tracer named_import_scope ''legacy'') 2
       (obj [(''m'', obj [(''foo'', leaf (JObj 0) JUndefined JUndefined)])]) fresh)) =
     [[''m'', ''foo'']]"
  using legacy_require_and_import_agree [where e = "JObj 0" and k = 0]
  by (simp add: numeral_2_eq_2)

text \<open>
  C6.  In a mode other than \<^verbatim>\<open>"legacy"\<close> (the constructor's default is \<^verbatim>\<open>"strict"\<close>), the
  specifiers of a module whose map has no \<^verbatim>\<open>ESM\<close> symbol are matched against
  \<^verbatim>\<open>{ default: map }\<close> alone, so a named import of anything but \<^verbatim>\<open>default\<close> yields nothing.
  A \<^verbatim>\<open>READ\<close> report whose path is the module key followed by \<^verbatim>\<open>default\<close> and nothing else is
  dropped; with a further property, or with another type, it is kept, without the
  \<^verbatim>\<open>default\<close>.  For the bare \<^verbatim>\<open>import x from "m";\<close> the strategy yields nothing when the
  map of \<^verbatim>\<open>m\<close> has no truthy \<^verbatim>\<open>READ\<close> payload of its own, and otherwise the one report of
  the declaration.
\<close>

theorem strict_default_only:
  "(mode this \<noteq> ''legacy'' \<and> \<not> hasESM t \<longrightarrow>
      specifier_references E this n m t sp =
        for_of_gen (iterateImportReferences E this n sp [m] (default_only t)) forward) \<and>
   (mode this \<noteq> ''legacy'' \<and> \<not> hasESM t \<and> ntype (nodes E sp) = ''ImportSpecifier'' \<and>
    imported (nodes E sp) = Some i \<and> name (nodes E i) \<noteq> ''default'' \<longrightarrow>
      specifier_references E this n m t sp s = ([], Normal, s)) \<and>
   forward \<lparr>node = nd, path = [m, ''default''], rtype = READ, entry = e\<rparr> = None \<and>
   forward \<lparr>node = nd, path = m # ''default'' # key # rest, rtype = READ, entry = e\<rparr> =
     Some \<lparr>node = nd, path = m # key # rest, rtype = READ, entry = e\<rparr> \<and>
   forward \<lparr>node = nd, path = [m, ''default''], rtype = CALL, entry = e\<rparr> =
     Some \<lparr>node = nd, path = [m], rtype = CALL, entry = e\<rparr> \<and>
   (\<not> hasESM t \<longrightarrow>
      iterateEsmReferences bare_import_env (new_tracer bare_import_scope ''strict'') (Suc k)
          (obj [(''m'', t)]) fresh =
        (if truthy (onRead t)
         then [\<lparr>node = 1, path = [''m''], rtype = READ, entry = onRead t\<rparr>] else [],
         Normal, fresh))"
proof (intro conjI impI)
  assume "mode this \<noteq> ''legacy'' \<and> \<not> hasESM t"
  then show "specifier_references E this n m t sp =
      for_of_gen (iterateImportReferences E this n sp [m] (default_only t)) forward"
    by (simp add: specifier_references_def)
next
  assume a: "mode this \<noteq> ''legacy'' \<and> \<not> hasESM t \<and> ntype (nodes E sp) = ''ImportSpecifier'' \<and>
    imported (nodes E sp) = Some i \<and> name (nodes E i) \<noteq> ''default''"
  then have "iterateImportReferences E this n sp [m] (default_only t) = skip"
    by (simp add: iterateImportReferences_def own_default_only)
  with a show "specifier_references E this n m t sp s = ([], Normal, s)"
    by (simp add: specifier_references_def for_of_gen_def skip_def split: option.split)
next
  assume "\<not> hasESM t"
  then show "iterateEsmReferences bare_import_env (new_tracer bare_import_scope ''strict'') (Suc k)
          (obj [(''m'', t)]) fresh =
        (if truthy (onRead t)
         then [\<lparr>node = 1, path = [''m''], rtype = READ, entry = onRead t\<rparr>] else [],
         Normal, fresh)"
    by (rule bare_import_run)
qed (simp_all add: forward_def Array_filter_exceptDefault)

theorem strict_default_only_witness:
  "mode (new_tracer bare_import_scope ''strict'') \<noteq> ''legacy'' \<and>
   \<not> hasESM (obj [(''foo'', leaf (JObj 0) JUndefined JUndefined)]) \<and>
   ntype (nodes named_import_env 2) = ''ImportSpecifier'' \<and>
   imported (nodes named_import_env 2) = Some 3 \<and>
   name (nodes named_import_env 3) \<noteq> ''default'' \<and>
   specifier_references named_import_env (new_tracer bare_import_scope ''strict'') 1 ''m''
       (obj [(''foo'', leaf (JObj 0) JUndefined JUndefined)]) 2 fresh = ([], Normal, fresh) \<and>
   iterateEsmReferences bare_import_env (new_tracer bare_import_scope ''strict'') (Suc 0)
       (obj [(''m'', obj [(''foo'', leaf (JObj 0) JUndefined JUndefined)])]) fresh =
     ([], Normal, fresh)"
proof -
  have h: "mode (new_tracer bare_import_scope ''strict'') \<noteq> ''legacy'' \<and>
      \<not> hasESM (obj [(''foo'', leaf (JObj 0) JUndefined JUndefined)]) \<and>
      ntype (nodes named_import_env 2) = ''ImportSpecifier'' \<and>
      imported (nodes named_import_env 2) = Some 3 \<and>
      name (nodes named_import_env 3) \<noteq> ''default''"
    by (simp add: new_tracer_def obj_def named_import_env_def table_def blank_def)
  have r: "\<not> truthy (onRead (obj [(''foo'', leaf (JObj 0) JUndefined JUndefined)]))"
    by (simp add: obj_def)
  note T = strict_default_only [where this = "new_tracer bare_import_scope ''strict''"
      and t = "obj [(''foo'', leaf (JObj 0) JUndefined JUndefined)]" and E = named_import_env
      and sp = 2 and i = 3 and n = 1 and m = "''m''" and s = fresh and k = 0
      and nd = 0 and e = JNull and key = "''a''" and rest = "[]"]
  from T h have 1: "specifier_references named_import_env
      (new_tracer bare_import_scope ''strict'') 1 ''m''
      (obj [(''foo'', leaf (JObj 0) JUndefined JUndefined)]) 2 fresh = ([], Normal, fresh)"
    by blast
  from T h r have 2: "iterateEsmReferences bare_import_env
      (new_tracer bare_import_scope ''strict'') (Suc 0)
      (obj [(''m'', obj [(''foo'', leaf (JObj 0) JUndefined JUndefined)])]) fresh =
     ([], Normal, fresh)"
    by simp
  from h 1 2 show ?thesis by blast
qed

text \<open>
  C7.  When the node that property matching climbs to is the right-hand side of an
  assignment expression, matching is the pattern unpacker on the left-hand side with the
  current path and trace map, followed by property matching rooted at the assignment
  expression itself with the same path and trace map; when the node is not the right-hand
  side, nothing is matched.  Hence, when the assignment expression is the object of a member
  expression whose property name is a key of the trace map with a truthy \<^verbatim>\<open>READ\<close> payload,
  and the unpacker on the left-hand side completes normally, the member expression is
  reported with the path extended by that key.  For \<^verbatim>\<open>(x = a).foo;\<close> with the trace map
  \<^verbatim>\<open>{a: {foo: {[READ]: e}}}\<close> the global-object strategy reports exactly the member
  expression, with the path \<^verbatim>\<open>["a", "foo"]\<close>.
\<close>

theorem assignment_propagates_both_ways:
  "(climb E (Suc n) rootNode = Inr (nd, parent') \<and>
    ntype (nodes E parent') = ''AssignmentExpression'' \<and>
    right (nodes E parent') = Some nd \<longrightarrow>
      iteratePropertyReferences E this (Suc n) rootNode p t =
        seq (iterateLhsReferences E this n (left (nodes E parent')) p t)
            (iteratePropertyReferences E this n parent' p t)) \<and>
   (climb E (Suc n) rootNode = Inr (nd, parent') \<and>
    ntype (nodes E parent') = ''AssignmentExpression'' \<and>
    right (nodes E parent') \<noteq> Some nd \<longrightarrow>
      iteratePropertyReferences E this (Suc n) rootNode p t = skip) \<and>
   (climb E (Suc (Suc n)) rootNode = Inr (nd, parent') \<and>
    ntype (nodes E parent') = ''AssignmentExpression'' \<and>
    right (nodes E parent') = Some nd \<and>
    parent (nodes E parent') = Some mem \<and> ntype (nodes E mem) = ''MemberExpression'' \<and>
    object (nodes E mem) = Some parent' \<and>
    getPropertyName E mem = Some key \<and> own t key = Some t' \<and> truthy (onRead t') \<and>
    iterateLhsReferences E this (Suc n) (left (nodes E parent')) p t s = (rs, Normal, s1) \<longrightarrow>
      \<lparr>node = mem, path = p @ [key], rtype = READ, entry = onRead t'\<rparr> \<in>
        set (fst (iteratePropertyReferences E this (Suc (Suc n)) rootNode p t s))) \<and>
   (truthy e \<longrightarrow>
      iterateGlobalReferences assign_env (new_tracer assign_scope m) (Suc (Suc (Suc (Suc k))))
          (obj [(''a'', obj [(''foo'', leaf e JUndefined JUndefined)])]) fresh =
        ([\<lparr>node = 2, path = [''a'', ''foo''], rtype = READ, entry = e\<rparr>], Normal, fresh))"
proof (intro conjI impI)
  assume "climb E (Suc n) rootNode = Inr (nd, parent') \<and>
    ntype (nodes E parent') = ''AssignmentExpression'' \<and>
    right (nodes E parent') = Some nd"
  then show "iteratePropertyReferences E this (Suc n) rootNode p t =
        seq (iterateLhsReferences E this n (left (nodes E parent')) p t)
            (iteratePropertyReferences E this n parent' p t)"
    by (simp del: climb.simps)
next
  assume "climb E (Suc n) rootNode = Inr (nd, parent') \<and>
    ntype (nodes E parent') = ''AssignmentExpression'' \<and>
    right (nodes E parent') \<noteq> Some nd"
  then show "iteratePropertyReferences E this (Suc n) rootNode p t = skip"
    by (simp del: climb.simps)
next
  assume "climb E (Suc (Suc n)) rootNode = Inr (nd, parent') \<and>
    ntype (nodes E parent') = ''AssignmentExpression'' \<and>
    right (nodes E parent') = Some nd \<and>
    parent (nodes E parent') = Some mem \<and> ntype (nodes E mem) = ''MemberExpression'' \<and>
    object (nodes E mem) = Some parent' \<and>
    getPropertyName E mem = Some key \<and> own t key = Some t' \<and> truthy (onRead t') \<and>
    iterateLhsReferences E this (Suc n) (left (nodes E parent')) p t s = (rs, Normal, s1)"
  then show "\<lparr>node = mem, path = p @ [key], rtype = READ, entry = onRead t'\<rparr> \<in>
        set (fst (iteratePropertyReferences E this (Suc (Suc n)) rootNode p t s))"
    by (intro chained_access [where nd = nd and a = parent' and rs = rs and ?s1.0 = s1]) simp_all
next
  assume "truthy e"
  then show "iterateGlobalReferences assign_env (new_tracer assign_scope m)
          (Suc (Suc (Suc (Suc k))))
          (obj [(''a'', obj [(''foo'', leaf e JUndefined JUndefined)])]) fresh =
        ([\<lparr>node = 2, path = [''a'', ''foo''], rtype = READ, entry = e\<rparr>], Normal, fresh)"
    by (rule assign_run)
qed

theorem assignment_propagates_both_ways_witness:
  "climb assign_env (Suc (Suc 0)) 5 = Inr (5, 3) \<and>
   climb assign_env (Suc (Suc (Suc 0))) 5 = Inr (5, 3) \<and>
   ntype (nodes assign_env 3) = ''AssignmentExpression'' \<and>
   right (nodes assign_env 3) = Some 5 \<and>
   left (nodes assign_env 3) = Some 4 \<and>
   parent (nodes assign_env 3) = Some 2 \<and>
   ntype (nodes assign_env 2) = ''MemberExpression'' \<and>
   object (nodes assign_env 2) = Some 3 \<and>
   getPropertyName assign_env 2 = Some ''foo'' \<and>
   own (obj [(''foo'', leaf (JObj 0) JUndefined JUndefined)]) ''foo'' =
     Some (leaf (JObj 0) JUndefined JUndefined) \<and>
   truthy (onRead (leaf (JObj 0) JUndefined JUndefined)) \<and>
   iterateLhsReferences assign_env (new_tracer assign_scope ''strict'') (Suc (Suc 0)) (Some 4)
       [''a''] (obj [(''foo'', leaf (JObj 0) JUndefined JUndefined)]) fresh = ([], Normal, fresh) \<and>
   iteratePropertyReferences assign_env (new_tracer assign_scope ''strict'') (Suc (Suc 0)) 5
       [''a''] (obj [(''foo'', leaf (JObj 0) JUndefined JUndefined)]) =
     seq (iterateLhsReferences assign_env (new_tracer assign_scope ''strict'') (Suc 0) (Some 4)
            [''a''] (obj [(''foo'', leaf (JObj 0) JUndefined JUndefined)]))
         (iteratePropertyReferences assign_env (new_tracer assign_scope ''strict'') (Suc 0) 3
            [''a''] (obj [(''foo'', leaf (JObj 0) JUndefined JUndefined)])) \<and>
   \<lparr>node = 2, path = [''a''] @ [''foo''], rtype = READ,
      entry = onRead (leaf (JObj 0) JUndefined JUndefined)\<rparr> \<in>
     set (fst (iteratePropertyReferences assign_env (new_tracer assign_scope ''strict'')
       (Suc (Suc (Suc 0))) 5 [''a''] (obj [(''foo'', leaf (JObj 0) JUndefined JUndefined)]) fresh)) \<and>
   truthy (JObj 0) \<and>
   iterateGlobalReferences assign_env (new_tracer assign_scope ''strict'') (Suc (Suc (Suc (Suc 0))))
       (obj [(''a'', obj [(''foo'', leaf (JObj 0) JUndefined JUndefined)])]) fresh =
     ([\<lparr>node = 2, path = [''a'', ''foo''], rtype = READ, entry = JObj 0\<rparr>], Normal, fresh)"
proof -
  have h: "climb assign_env (Suc (Suc 0)) 5 = Inr (5, 3) \<and>
      climb assign_env (Suc (Suc (Suc 0))) 5 = Inr (5, 3) \<and>
      ntype (nodes assign_env 3) = ''AssignmentExpression'' \<and>
      right (nodes assign_env 3) = Some 5 \<and>
      left (nodes assign_env 3) = Some 4 \<and>
      parent (nodes assign_env 3) = Some 2 \<and>
      ntype (nodes assign_env 2) = ''MemberExpression'' \<and>
      object (nodes assign_env 2) = Some 3 \<and>
      getPropertyName assign_env 2 = Some ''foo'' \<and>
      own (obj [(''foo'', leaf (JObj 0) JUndefined JUndefined)]) ''foo'' =
        Some (leaf (JObj 0) JUndefined JUndefined) \<and>
      truthy (onRead (leaf (JObj 0) JUndefined JUndefined))"
    by (simp add: assign_env_def table_def blank_def sentinel_simps own_def obj_def leaf_def)
  have l: "iterateLhsReferences assign_env (new_tracer assign_scope ''strict'') (Suc (Suc 0))
       (Some 4) [''a''] (obj [(''foo'', leaf (JObj 0) JUndefined JUndefined)]) fresh =
     ([], Normal, fresh)"
    by (simp add: assign_env_def assign_scope_def run_defs)
  note T = assignment_propagates_both_ways [where E = assign_env
      and this = "new_tracer assign_scope ''strict''" and n = "Suc 0" and rootNode = 5 and nd = 5
      and parent' = 3 and p = "[''a'']" and t = "obj [(''foo'', leaf (JObj 0) JUndefined JUndefined)]"
      and mem = 2 and key = "''foo''" and t' = "leaf (JObj 0) JUndefined JUndefined"
      and s = fresh and rs = "[]" and ?s1.0 = fresh
      and e = "JObj 0" and m = "''strict''" and k = 0]
  from T h have 1: "iteratePropertyReferences assign_env (new_tracer assign_scope ''strict'')
       (Suc (Suc 0)) 5 [''a''] (obj [(''foo'', leaf (JObj 0) JUndefined JUndefined)]) =
     seq (iterateLhsReferences assign_env (new_tracer assign_scope ''strict'') (Suc 0) (Some 4)
            [''a''] (obj [(''foo'', leaf (JObj 0) JUndefined JUndefined)]))
         (iteratePropertyReferences assign_env (new_tracer assign_scope ''strict'') (Suc 0) 3
            [''a''] (obj [(''foo'', leaf (JObj 0) JUndefined JUndefined)]))"
    by metis
  from h l have "climb assign_env (Suc (Suc (Suc 0))) 5 = Inr (5, 3) \<and>
      ntype (nodes assign_env 3) = ''AssignmentExpression'' \<and>
      right (nodes assign_env 3) = Some 5 \<and>
      parent (nodes assign_env 3) = Some 2 \<and> ntype (nodes assign_env 2) = ''MemberExpression'' \<and>
      object (nodes assign_env 2) = Some 3 \<and>
      getPropertyName assign_env 2 = Some ''foo'' \<and>
      own (obj [(''foo'', leaf (JObj 0) JUndefined JUndefined)]) ''foo'' =
        Some (leaf (JObj 0) JUndefined JUndefined) \<and>
      truthy (onRead (leaf (JObj 0) JUndefined JUndefined)) \<and>
      iterateLhsReferences assign_env (new_tracer assign_scope ''strict'') (Suc (Suc 0))
        (left (nodes assign_env 3)) [''a'']
        (obj [(''foo'', leaf (JObj 0) JUndefined JUndefined)]) fresh = ([], Normal, fresh)"
    by simp
  with T have 3: "\<lparr>node = 2, path = [''a''] @ [''foo''], rtype = READ,
      entry = onRead (leaf (JObj 0) JUndefined JUndefined)\<rparr> \<in>
     set (fst (iteratePropertyReferences assign_env (new_tracer assign_scope ''strict'')
       (Suc (Suc (Suc 0))) 5 [''a''] (obj [(''foo'', leaf (JObj 0) JUndefined JUndefined)]) fresh))"
    by blast
  from T have 2: "iterateGlobalReferences assign_env (new_tracer assign_scope ''strict'')
       (Suc (Suc (Suc (Suc 0))))
       (obj [(''a'', obj [(''foo'', leaf (JObj 0) JUndefined JUndefined)])]) fresh =
     ([\<lparr>node = 2, path = [''a'', ''foo''], rtype = READ, entry = JObj 0\<rparr>], Normal, fresh)"
    by simp
  have "truthy (JObj 0)" by simp
  with h l 1 2 3 show ?thesis by (intro conjI) blast+
qed

text \<open>
  C8.  On an object pattern the pattern unpacker is the loop over exactly those properties
  whose resolved key is present in the current trace map (a property whose key does not
  resolve, or is absent from the map, is passed over and the loop goes on with its
  siblings); for each, with the path extended by the key and the child map: a \<^verbatim>\<open>READ\<close>
  report at the property when the child map has a truthy \<^verbatim>\<open>READ\<close> payload, and then the
  unpacker on the value of the property.  For \<^verbatim>\<open>const {y} = window.x; y()\<close> and the trace map
  \<^verbatim>\<open>{x: {y: {[CALL]: e}}}\<close> the global-object strategy yields exactly one report: a \<^verbatim>\<open>CALL\<close>
  at the call \<^verbatim>\<open>y()\<close> with the path \<^verbatim>\<open>["x", "y"]\<close>.
\<close>

theorem object_pattern_properties:
  "(ntype (nodes E pn) = ''ObjectPattern'' \<longrightarrow>
      iterateLhsReferences E this (Suc n) (Some pn) p t =
        for_of (filter (\<lambda>property. traced_property E t property \<noteq> None)
                  (properties (nodes E pn)))
          (\<lambda>property.
             case traced_property E t property of
               None \<Rightarrow> skip
             | Some (key, nextTraceMap) \<Rightarrow>
                 seq
                   (if truthy (onRead nextTraceMap)
                    then yield \<lparr>node = property, path = p @ [key], rtype = READ,
                                entry = onRead nextTraceMap\<rparr>
                    else skip)
                   (iterateLhsReferences E this n (pvalue (nodes E property)) (p @ [key])
                      nextTraceMap))) \<and>
   (truthy e \<longrightarrow>
      iterateGlobalReferences destructure_env (new_tracer destructure_scope m)
          (Suc (Suc (Suc (Suc (Suc (Suc (Suc k)))))))
          (obj [(''x'', obj [(''y'', leaf JUndefined e JUndefined)])]) fresh =
        ([\<lparr>node = 10, path = [''x'', ''y''], rtype = CALL, entry = e\<rparr>], Normal, fresh)) \<and>
   ntype (nodes destructure_env 10) = ''CallExpression'' \<and>
   callee (nodes destructure_env 10) = Some 11 \<and> name (nodes destructure_env 11) = ''y''"
proof (intro conjI impI)
  assume "ntype (nodes E pn) = ''ObjectPattern''"
  then show "iterateLhsReferences E this (Suc n) (Some pn) p t =
        for_of (filter (\<lambda>property. traced_property E t property \<noteq> None)
                  (properties (nodes E pn)))
          (\<lambda>property.
             case traced_property E t property of
               None \<Rightarrow> skip
             | Some (key, nextTraceMap) \<Rightarrow>
                 seq
                   (if truthy (onRead nextTraceMap)
                    then yield \<lparr>node = property, path = p @ [key], rtype = READ,
                                entry = onRead nextTraceMap\<rparr>
                    else skip)
                   (iterateLhsReferences E this n (pvalue (nodes E property)) (p @ [key])
                      nextTraceMap))"
    apply (simp add: Let_def)
    apply (rule for_of_filter)
    by (auto simp: traced_property_def split: option.splits)
next
  assume "truthy e"
  then show "iterateGlobalReferences destructure_env (new_tracer destructure_scope m)
          (Suc (Suc (Suc (Suc (Suc (Suc (Suc k)))))))
          (obj [(''x'', obj [(''y'', leaf JUndefined e JUndefined)])]) fresh =
        ([\<lparr>node = 10, path = [''x'', ''y''], rtype = CALL, entry = e\<rparr>], Normal, fresh)"
    by (rule destructure_run)
qed (simp_all add: destructure_env_def table_def blank_def)

theorem object_pattern_properties_witness:
  "ntype (nodes destructure_env 3) = ''ObjectPattern'' \<and>
   properties (nodes destructure_env 3) = [4] \<and>
   traced_property destructure_env (obj [(''y'', leaf JUndefined (JObj 0) JUndefined)]) 4 =
     Some (''y'', leaf JUndefined (JObj 0) JUndefined) \<and>
   iterateLhsReferences destructure_env (new_tracer destructure_scope ''strict'') (Suc (Suc 0)) (Some 3)
       [''x''] (obj [(''y'', leaf JUndefined (JObj 0) JUndefined)]) =
     iterateLhsReferences destructure_env (new_tracer destructure_scope ''strict'') (Suc 0) (Some 5)
       [''x'', ''y''] (leaf JUndefined (JObj 0) JUndefined) \<and>
   truthy (JObj 0) \<and>
   iterateGlobalReferences destructure_env (new_tracer destructure_scope ''strict'')
       (Suc (Suc (Suc (Suc (Suc (Suc (Suc 0)))))))
       (obj [(''x'', obj [(''y'', leaf JUndefined (JObj 0) JUndefined)])]) fresh =
     ([\<lparr>node = 10, path = [''x'', ''y''], rtype = CALL, entry = JObj 0\<rparr>], Normal, fresh)"
proof -
  have h: "ntype (nodes destructure_env 3) = ''ObjectPattern'' \<and>
      properties (nodes destructure_env 3) = [4] \<and>
      pvalue (nodes destructure_env 4) = Some 5 \<and>
      traced_property destructure_env (obj [(''y'', leaf JUndefined (JObj 0) JUndefined)]) 4 =
        Some (''y'', leaf JUndefined (JObj 0) JUndefined)"
    by (simp add: destructure_env_def table_def blank_def traced_property_def own_def obj_def)
  have r: "\<not> truthy (onRead (leaf JUndefined (JObj 0) JUndefined))"
    by (simp add: leaf_def)
  note T = object_pattern_properties [where E = destructure_env
      and this = "new_tracer destructure_scope ''strict''" and n = "Suc 0" and pn = 3
      and p = "[''x'']" and t = "obj [(''y'', leaf JUndefined (JObj 0) JUndefined)]"
      and e = "JObj 0" and m = "''strict''" and k = 0]
  from T h r have 1: "iterateLhsReferences destructure_env
       (new_tracer destructure_scope ''strict'') (Suc (Suc 0)) (Some 3)
       [''x''] (obj [(''y'', leaf JUndefined (JObj 0) JUndefined)]) =
     iterateLhsReferences destructure_env (new_tracer destructure_scope ''strict'') (Suc 0) (Some 5)
       [''x'', ''y''] (leaf JUndefined (JObj 0) JUndefined)"
    by (simp add: seq_skip_left seq_skip_right)
  from T have 2: "iterateGlobalReferences destructure_env
       (new_tracer destructure_scope ''strict'')
       (Suc (Suc (Suc (Suc (Suc (Suc (Suc 0)))))))
       (obj [(''x'', obj [(''y'', leaf JUndefined (JObj 0) JUndefined)])]) fresh =
     ([\<lparr>node = 10, path = [''x'', ''y''], rtype = CALL, entry = JObj 0\<rparr>], Normal, fresh)"
    by simp
  from h 1 2 show ?thesis by simp
qed




text \<open>
  C10, as stated, fails: for \<^verbatim>\<open>export * from "m";\<close> and the trace map
  \<^verbatim>\<open>{m: {default: {[READ]: "E"}}}\<close>, which has no \<^verbatim>\<open>ESM\<close> symbol, the ES-module strategy yields
  a report with the path \<^verbatim>\<open>["m", "default"]\<close>: the reports of a star re-export (and the
  report of a declaration itself) are yielded as they are.
\<close>

theorem export_all_keeps_default:
  "\<not> hasESM (obj [(''default'', leaf (JStr ''E'') JUndefined JUndefined)]) \<and>
   iterateEsmReferences export_all_env (new_tracer bare_import_scope ''strict'') 1
       (obj [(''m'', obj [(''default'', leaf (JStr ''E'') JUndefined JUndefined)])]) fresh =
     ([\<lparr>node = 1, path = [''m'', ''default''], rtype = READ, entry = JStr ''E''\<rparr>], Normal, fresh)"
  by (simp add: export_all_run) (simp add: obj_def)

text \<open>
  C10, amended.  For a module map without the \<^verbatim>\<open>ESM\<close> symbol, every report that the
  ES-module strategy yields for a specifier of an import or export declaration is a report
  of \<^verbatim>\<open>_iterateImportReferences\<close> on the wrapped map, with the same node, type and entry, and
  with its path filtered: a \<^verbatim>\<open>default\<close> in the second position of that path is removed,
  and every other segment stays, a \<^verbatim>\<open>default\<close> further down included.  So in \<^verbatim>\<open>"strict"\<close>
  mode \<^verbatim>\<open>import x from "m"; x.foo;\<close> is reported with the path \<^verbatim>\<open>["m", "foo"]\<close>, and
  \<^verbatim>\<open>import x from "m"; x.default;\<close>, traced through \<^verbatim>\<open>["m", "default", "default"]\<close>, with the
  path \<^verbatim>\<open>["m", "default"]\<close>.
\<close>

theorem specifier_paths_drop_default:
  "(\<not> hasESM t \<and> r' \<in> set (fst (specifier_references E this n m t sp s)) \<longrightarrow>
      (\<exists>r. r \<in> set (fst (iterateImportReferences E this n sp [m]
                (if mode this = ''legacy'' then Object_assign (default_only t) t
                 else default_only t) (s\<lparr>closesAfter := None\<rparr>))) \<and>
           forward r = Some r')) \<and>
   (forward r = Some r' \<longrightarrow>
      r' = r\<lparr>path := Array_filter exceptDefault (path r)\<rparr>) \<and>
   Array_filter exceptDefault (a # ''default'' # rest) = a # rest \<and>
   (b \<noteq> ''default'' \<longrightarrow> Array_filter exceptDefault (a # b # rest) = a # b # rest) \<and>
   Array_filter exceptDefault [a] = [a] \<and>
   Array_filter exceptDefault [] = [] \<and>
   (truthy e \<longrightarrow>
      iterateEsmReferences (default_import_env ''foo'') (new_tracer bare_import_scope ''strict'')
          (Suc (Suc (Suc k))) (obj [(''m'', obj [(''foo'', leaf e JUndefined JUndefined)])]) fresh =
        ([\<lparr>node = 5, path = [''m'', ''foo''], rtype = READ, entry = e\<rparr>], Normal, fresh) \<and>
      iterateEsmReferences (default_import_env ''default'')
          (new_tracer bare_import_scope ''strict'') (Suc (Suc (Suc k)))
          (obj [(''m'', obj [(''default'', leaf e JUndefined JUndefined)])]) fresh =
        ([\<lparr>node = 5, path = [''m'', ''default''], rtype = READ, entry = e\<rparr>], Normal, fresh))"
proof (intro conjI impI)
  assume a: "\<not> hasESM t \<and> r' \<in> set (fst (specifier_references E this n m t sp s))"
  let ?it = "iterateImportReferences E this n sp [m]
      (if mode this = ''legacy'' then Object_assign (default_only t) t else default_only t)"
  obtain rs c s1 where run: "?it (s\<lparr>closesAfter := None\<rparr>) = (rs, c, s1)"
    by (cases "?it (s\<lparr>closesAfter := None\<rparr>)") auto
  from a have "specifier_references E this n m t sp = for_of_gen ?it forward"
    by (simp add: specifier_references_def Let_def)
  with a have "r' \<in> set (fst (for_of_gen ?it forward s))"
    by simp
  with run have "r' \<in> set (List.map_filter forward rs)"
    by (auto simp: for_of_gen_def split: option.splits if_splits prod.splits dest: in_set_takeD)
  then obtain r where "r \<in> set rs" "forward r = Some r'"
    by (auto simp: List.map_filter_def)
  with run show "\<exists>r. r \<in> set (fst (?it (s\<lparr>closesAfter := None\<rparr>))) \<and> forward r = Some r'"
    by auto
next
  assume "forward r = Some r'"
  then show "r' = r\<lparr>path := Array_filter exceptDefault (path r)\<rparr>"
    by (auto simp: forward_def Let_def split: if_splits)
next
  assume "truthy e"
  then show "iterateEsmReferences (default_import_env ''foo'')
      (new_tracer bare_import_scope ''strict'')
      (Suc (Suc (Suc k))) (obj [(''m'', obj [(''foo'', leaf e JUndefined JUndefined)])]) fresh =
    ([\<lparr>node = 5, path = [''m'', ''foo''], rtype = READ, entry = e\<rparr>], Normal, fresh)"
    by (rule default_member_run)
next
  assume "truthy e"
  then show "iterateEsmReferences (default_import_env ''default'')
      (new_tracer bare_import_scope ''strict'') (Suc (Suc (Suc k)))
      (obj [(''m'', obj [(''default'', leaf e JUndefined JUndefined)])]) fresh =
    ([\<lparr>node = 5, path = [''m'', ''default''], rtype = READ, entry = e\<rparr>], Normal, fresh)"
    by (rule default_default_run)
qed (simp_all add: Array_filter_exceptDefault)

theorem specifier_paths_drop_default_witness:
  "\<not> hasESM (obj [(''foo'', leaf (JObj 0) JUndefined JUndefined)]) \<and>
   \<lparr>node = 5, path = [''m'', ''foo''], rtype = READ, entry = JObj 0\<rparr> \<in>
     set (fst (specifier_references (default_import_env ''foo'')
       (new_tracer bare_import_scope ''strict'') 3 ''m''
       (obj [(''foo'', leaf (JObj 0) JUndefined JUndefined)]) 2 fresh)) \<and>
   forward \<lparr>node = 5, path = [''m'', ''default'', ''foo''], rtype = READ, entry = JObj 0\<rparr> =
     Some \<lparr>node = 5, path = [''m'', ''foo''], rtype = READ, entry = JObj 0\<rparr> \<and>
   (\<exists>r. r \<in> set (fst (iterateImportReferences (default_import_env ''foo'')
              (new_tracer bare_import_scope ''strict'') 3 2 [''m'']
              (default_only (obj [(''foo'', leaf (JObj 0) JUndefined JUndefined)])) fresh)) \<and>
        forward r = Some \<lparr>node = 5, path = [''m'', ''foo''], rtype = READ, entry = JObj 0\<rparr>) \<and>
   ''foo'' \<noteq> ''default'' \<and> truthy (JObj 0) \<and>
   Array_filter exceptDefault [''m'', ''default'', ''foo'', ''default''] =
     [''m'', ''foo'', ''default'']"
proof -
  have run: "specifier_references (default_import_env ''foo'')
       (new_tracer bare_import_scope ''strict'') 3 ''m''
       (obj [(''foo'', leaf (JObj 0) JUndefined JUndefined)]) 2 fresh =
     ([\<lparr>node = 5, path = [''m'', ''foo''], rtype = READ, entry = JObj 0\<rparr>], Normal, fresh)"
    by (simp add: esm_defs default_import_env_def bare_import_scope_def
        bare_import_module_scope_def run_defs numeral_3_eq_3)
  show ?thesis
    using specifier_paths_drop_default [where t = "obj [(''foo'', leaf (JObj 0) JUndefined JUndefined)]"
      and r' = "\<lparr>node = 5, path = [''m'', ''foo''], rtype = READ, entry = JObj 0\<rparr>"
      and r = "\<lparr>node = 5, path = [''m'', ''default'', ''foo''], rtype = READ, entry = JObj 0\<rparr>"
      and E = "default_import_env ''foo''" and this = "new_tracer bare_import_scope ''strict''"
      and n = 3 and m = "''m''" and sp = 2 and s = fresh and a = "''m''" and rest = "[''foo'', ''default'']"
      and b = "''foo''" and e = "JObj 0" and k = 0]
    by (simp add: run forward_def Array_filter_exceptDefault) (simp add: new_tracer_def obj_def fresh_def)
qed

end
